theory Spec2Isabelle
  imports Complex_Main
begin

section \<open>Data model (types.ts)\<close>

text \<open>
  JavaScript numbers are IEEE doubles. Every finite value is modelled as a \<open>real\<close>. In
  \<open>interpolate\<close> each arithmetic operation is followed by the rounding \<open>fl\<close> to double
  precision: there the accumulated parameter is compared with the distance, so rounding
  decides how many stamps are made. In the other functions the arithmetic is exact. The
  two places where the source can produce a value that is not a finite number (the
  quotient \<open>currentDist / dist\<close> with \<open>dist = 0\<close>, and whatever is computed from it) are
  written out as separate branches of the model.
\<close>

subsection \<open>Rounding to double precision\<close>

text \<open>Rounding to the nearest integer, a tie going to the even one.\<close>

definition round_half_even :: "real \<Rightarrow> int" where
  "round_half_even z =
     (let f = \<lfloor>z\<rfloor>; r = z - of_int f
      in if r < 1 / 2 then f else if 1 / 2 < r then f + 1 else if even f then f else f + 1)"

text \<open>
  The exponent \<open>e\<close> with \<open>2 ^ e \<le> |x| < 2 ^ (e + 1)\<close>, and the double nearest to \<open>x\<close>
  (a tie going to the even mantissa): \<open>x\<close> is scaled so that its mantissa has 53 bits,
  rounded to an integer and scaled back. The exponent range is not bounded: overflow
  and subnormal numbers are not modelled. \<open>fl_eval_nat\<close> computes \<open>fl\<close> on concrete
  numbers.
\<close>

definition binade :: "real \<Rightarrow> int" where
  "binade x = \<lfloor>log 2 \<bar>x\<bar>\<rfloor>"

definition fl :: "real \<Rightarrow> real" where
  "fl x =
     (if x = 0 then 0
      else of_int (round_half_even (x / 2 powr of_int (binade x - 52))) *
           2 powr of_int (binade x - 52))"

subsection \<open>Tools, points, settings\<close>

datatype ToolType = PENCIL | BRUSH | ERASER | FILL | PIXEL | INK | CHARCOAL

text \<open>A colour after the browser has parsed it: red, green and blue channels.\<close>

type_synonym rgb = "real \<times> real \<times> real"

text \<open>
  \<open>interface Point { x; y; pressure?; tilt? }\<close>. The fields \<open>x\<close> and \<open>y\<close> are named
  \<open>px\<close> and \<open>py\<close>; an optional field that is absent is \<open>None\<close>.
\<close>

record point =
  px :: real
  py :: real
  pressure :: "real option"
  tilt :: "real option"

text \<open>\<open>interface DrawingSettings\<close>; the field \<open>size\<close> is named \<open>bsize\<close>.\<close>

record DrawingSettings =
  color :: rgb
  bsize :: real
  opacity :: real
  hardness :: real
  spacing :: real
  jitter :: real
  tool :: ToolType
  isStylus :: bool

text \<open>The fields of a pointer event that the component reads.\<close>

record pointer_event =
  clientX :: real
  clientY :: real
  ev_pressure :: real
  tiltX :: real

section \<open>The 2D drawing context of the browser\<close>

text \<open>
  The canvas is not code of the repository. Its operations are modelled after the HTML
  standard, on a bitmap with real coordinates (no rasterisation, no anti-aliasing), for
  the calls the component makes. The bitmap is opaque: the component fills it with an
  opaque colour when it mounts, and source-over compositing keeps it opaque.
\<close>

datatype dom_exception = TypeError | IndexSizeError

type_synonym rgba = "rgb \<times> real"

text \<open>
  The gradient made by \<open>createRadialGradient(cx, cy, 0, cx, cy, r)\<close>, the only form the
  source creates, with its colour stops in the order of their offsets.
\<close>

record gradient =
  g_cx :: real
  g_cy :: real
  g_r :: real
  stops :: "(real \<times> rgba) list"

datatype fill_style = Solid rgb | Gradient gradient

text \<open>A closed subpath made by \<open>arc(cx, cy, r, 0, 2 * PI)\<close>: a full circle.\<close>

record disc =
  d_cx :: real
  d_cy :: real
  d_r :: real

record context2d =
  fillStyle :: fill_style
  globalAlpha :: real
  path :: "disc list"
  bitmap :: "real \<times> real \<Rightarrow> rgb"

definition blend :: "real \<Rightarrow> rgb \<Rightarrow> rgb \<Rightarrow> rgb" where
  "blend a src dst =
     (case src of (r, g, b) \<Rightarrow> case dst of (r', g', b') \<Rightarrow>
        (a * r + (1 - a) * r', a * g + (1 - a) * g', a * b + (1 - a) * b'))"

text \<open>Source-over compositing of a paint under the global alpha.\<close>

definition over :: "real \<Rightarrow> rgba \<Rightarrow> rgb \<Rightarrow> rgb" where
  "over ga paint dst = blend (ga * snd paint) (fst paint) dst"

definition mix :: "rgba \<Rightarrow> rgba \<Rightarrow> real \<Rightarrow> rgba" where
  "mix c1 c2 f =
     (case c1 of ((r1, g1, b1), a1) \<Rightarrow> case c2 of ((r2, g2, b2), a2) \<Rightarrow>
        ((r1 + (r2 - r1) * f, g1 + (g2 - g1) * f, b1 + (b2 - b1) * f), a1 + (a2 - a1) * f))"

text \<open>
  The colour of a gradient at offset \<open>w\<close>: the first stop's colour before the first stop,
  the last stop's colour after the last one, linear interpolation of the four channels
  (alpha not premultiplied) between two stops, transparent black without stops.
\<close>

fun colour_at :: "(real \<times> rgba) list \<Rightarrow> real \<Rightarrow> rgba" where
  "colour_at [] w = ((0, 0, 0), 0)"
| "colour_at [(o1, c1)] w = c1"
| "colour_at ((o1, c1) # (o2, c2) # rest) w =
     (if w \<le> o1 then c1
      else if w < o2 then mix c1 c2 ((w - o1) / (o2 - o1))
      else colour_at ((o2, c2) # rest) w)"

definition euclid :: "real \<Rightarrow> real \<Rightarrow> real \<Rightarrow> real \<Rightarrow> real" where
  "euclid x0 y0 x1 y1 = sqrt ((x1 - x0) * (x1 - x0) + (y1 - y0) * (y1 - y0))"

text \<open>
  The paint of a fill style at a position. A radial gradient whose two circles coincide
  (\<open>r = 0\<close>) paints nothing.
\<close>

definition paint_at :: "fill_style \<Rightarrow> real \<times> real \<Rightarrow> rgba" where
  "paint_at fs q =
     (case fs of
        Solid c \<Rightarrow> (c, 1)
      | Gradient g \<Rightarrow>
          if g_r g = 0 then ((0, 0, 0), 0)
          else colour_at (stops g) (euclid (g_cx g) (g_cy g) (fst q) (snd q) / g_r g))"

text \<open>The setter of \<open>globalAlpha\<close> ignores a value outside \<open>[0, 1]\<close>.\<close>

definition set_globalAlpha :: "real \<Rightarrow> context2d \<Rightarrow> context2d" where
  "set_globalAlpha a c = (if 0 \<le> a \<and> a \<le> 1 then c\<lparr>globalAlpha := a\<rparr> else c)"

definition fillRect :: "real \<Rightarrow> real \<Rightarrow> real \<Rightarrow> real \<Rightarrow> context2d \<Rightarrow> context2d" where
  "fillRect x y w h c =
     c\<lparr>bitmap := (\<lambda>q.
          if min x (x + w) \<le> fst q \<and> fst q < max x (x + w) \<and>
             min y (y + h) \<le> snd q \<and> snd q < max y (y + h)
          then over (globalAlpha c) (paint_at (fillStyle c) q) (bitmap c q)
          else bitmap c q)\<rparr>"

definition createRadialGradient :: "real \<Rightarrow> real \<Rightarrow> real \<Rightarrow> dom_exception + gradient" where
  "createRadialGradient cx cy r =
     (if r < 0 then Inl IndexSizeError
      else Inr \<lparr>g_cx = cx, g_cy = cy, g_r = r, stops = []\<rparr>)"

definition addColorStop :: "real \<Rightarrow> rgba \<Rightarrow> gradient \<Rightarrow> dom_exception + gradient" where
  "addColorStop off c g =
     (if off < 0 \<or> 1 < off then Inl IndexSizeError
      else Inr (g\<lparr>stops := takeWhile (\<lambda>s. fst s \<le> off) (stops g) @ [(off, c)] @
                              dropWhile (\<lambda>s. fst s \<le> off) (stops g)\<rparr>))"

definition beginPath :: "context2d \<Rightarrow> context2d" where
  "beginPath c = c\<lparr>path := []\<rparr>"

definition arc :: "real \<Rightarrow> real \<Rightarrow> real \<Rightarrow> context2d \<Rightarrow> dom_exception + context2d" where
  "arc cx cy r c =
     (if r < 0 then Inl IndexSizeError
      else Inr (c\<lparr>path := path c @ [\<lparr>d_cx = cx, d_cy = cy, d_r = r\<rparr>]\<rparr>))"

definition in_disc :: "real \<times> real \<Rightarrow> disc \<Rightarrow> bool" where
  "in_disc q d = (euclid (d_cx d) (d_cy d) (fst q) (snd q) \<le> d_r d)"

definition fill :: "context2d \<Rightarrow> context2d" where
  "fill c =
     c\<lparr>bitmap := (\<lambda>q.
          if list_ex (in_disc q) (path c)
          then over (globalAlpha c) (paint_at (fillStyle c) q) (bitmap c q)
          else bitmap c q)\<rparr>"

text \<open>
  A decoded image, as the paint at each position of the unit square, and
  \<open>drawImage(img, 0, 0, w, h)\<close>.
\<close>

type_synonym image = "real \<times> real \<Rightarrow> rgba"

definition drawImage :: "image \<Rightarrow> real \<Rightarrow> real \<Rightarrow> context2d \<Rightarrow> context2d" where
  "drawImage img w h c =
     c\<lparr>bitmap := (\<lambda>q.
          if 0 \<le> fst q \<and> fst q < w \<and> 0 \<le> snd q \<and> snd q < h
          then over (globalAlpha c) (img (fst q / w, snd q / h)) (bitmap c q)
          else bitmap c q)\<rparr>"

section \<open>The Canvas component\<close>

record canvas_element =
  rect_left :: real
  rect_top :: real
  width :: real
  height :: real
  ctx :: context2d

text \<open>
  What reaches the host application: \<open>onStrokeEnd()\<close> is \<open>StrokeEnd\<close>. \<open>ImageDecodeError\<close>
  is the signal the specification names for a failed import.
\<close>

datatype host_signal = StrokeEnd | ImageDecodeError

text \<open>
  The argument of one \<open>drawStamp\<close> call: a point, or \<open>NotFinite\<close> when its \<open>x\<close> and \<open>y\<close>
  are NaN.
\<close>

datatype stamp_request = At point | NotFinite

text \<open>
  The state of the component: the React state \<open>isDrawing\<close>, the refs \<open>lastPoint\<close>,
  \<open>distRemainder\<close> and \<open>canvasRef\<close> (\<open>None\<close>: no canvas element or no 2D context), the
  values that \<open>Math.random()\<close> will return, the signals sent to the host so far, and the
  trace of the \<open>drawStamp\<close> calls that found a context.
\<close>

record component =
  isDrawing :: bool
  lastPoint :: "point option"
  distRemainder :: real
  canvasRef :: "canvas_element option"
  random_source :: "nat \<Rightarrow> real"
  signals :: "host_signal list"
  stamps :: "stamp_request list"

text \<open>
  A handler returns, or an exception of the drawing context leaves it; the state reached
  is kept in both cases. \<open>Diverges\<close>: the handler never returns (the loop of
  \<open>interpolate\<close> runs forever); the state kept is the one the handler was called in.
\<close>

datatype 'a outcome = Normal 'a component | Threw dom_exception component | Diverges component

fun state_of :: "'a outcome \<Rightarrow> component" where
  "state_of (Normal v st) = st"
| "state_of (Threw e st) = st"
| "state_of (Diverges st) = st"

definition set_ctx :: "context2d \<Rightarrow> component \<Rightarrow> component" where
  "set_ctx c st = st\<lparr>canvasRef := map_option (\<lambda>cv. cv\<lparr>ctx := c\<rparr>) (canvasRef st)\<rparr>"

definition Math_random :: "component \<Rightarrow> real \<times> component" where
  "Math_random st =
     (random_source st 0, st\<lparr>random_source := (\<lambda>n. random_source st (Suc n))\<rparr>)"

text \<open>\<open>p || 0.5\<close> on an optional number: absent and zero are falsy.\<close>

definition pressure_or_default :: "real option \<Rightarrow> real" where
  "pressure_or_default p = (case p of None \<Rightarrow> 1 / 2 | Some v \<Rightarrow> if v = 0 then 1 / 2 else v)"

definition beige :: rgb where
  "beige = (245, 245, 220)"

definition getCoordinates :: "pointer_event \<Rightarrow> component \<Rightarrow> point" where
  "getCoordinates e st =
     (case canvasRef st of
        None \<Rightarrow> \<lparr>px = 0, py = 0, pressure = None, tilt = None\<rparr>
      | Some cv \<Rightarrow>
          \<lparr>px = clientX e - rect_left cv,
           py = clientY e - rect_top cv,
           pressure = Some (if ev_pressure e \<noteq> 0 then ev_pressure e else 1 / 2),
           tilt = Some (tiltX e)\<rparr>)"

text \<open>The soft and the hard brush of \<open>drawStamp\<close>, from \<open>ctx.globalAlpha = ...\<close> on.\<close>

definition paint_brush ::
  "DrawingSettings \<Rightarrow> real \<Rightarrow> real \<Rightarrow> real \<Rightarrow> context2d \<Rightarrow> component \<Rightarrow> unit outcome" where
  "paint_brush settings drawX drawY size' c0 st =
     (let isEraser = (tool settings = ERASER);
          ctx1 = set_globalAlpha (opacity settings) c0
      in if hardness settings < 1 then
           (case createRadialGradient drawX drawY (size' / 2) of
              Inl e \<Rightarrow> Threw e (set_ctx ctx1 st)
            | Inr g0 \<Rightarrow>
                let c = (if isEraser then beige else color settings) in
                (case addColorStop (hardness settings) (c, 1) g0 of
                   Inl e \<Rightarrow> Threw e (set_ctx ctx1 st)
                 | Inr g1 \<Rightarrow>
                     (case addColorStop 1 (if isEraser then (beige, 0) else (c, 0)) g1 of
                        Inl e \<Rightarrow> Threw e (set_ctx ctx1 st)
                      | Inr g2 \<Rightarrow>
                          let ctx2 = beginPath (ctx1\<lparr>fillStyle := Gradient g2\<rparr>) in
                          (case arc drawX drawY (size' / 2) ctx2 of
                             Inl e \<Rightarrow> Threw e (set_ctx ctx2 st)
                           | Inr ctx3 \<Rightarrow> Normal () (set_ctx (fill ctx3) st)))))
         else
           (let ctx2 = beginPath (ctx1\<lparr>fillStyle := Solid (if isEraser then beige else color settings)\<rparr>) in
            case arc drawX drawY (size' / 2) ctx2 of
              Inl e \<Rightarrow> Threw e (set_ctx ctx2 st)
            | Inr ctx3 \<Rightarrow> Normal () (set_ctx (fill ctx3) st)))"

definition drawStamp :: "DrawingSettings \<Rightarrow> point \<Rightarrow> component \<Rightarrow> unit outcome" where
  "drawStamp settings pt st0 =
     (case canvasRef st0 of
        None \<Rightarrow> Normal () st0
      | Some cv \<Rightarrow>
          let st = st0\<lparr>stamps := stamps st0 @ [At pt]\<rparr>;
              c0 = ctx cv;
              baseSize = bsize settings;
              pressure' = (if isStylus settings then pressure_or_default (pressure pt) else 1);
              size' = baseSize * pressure'
          in if tool settings = PIXEL then
               (let pixelSize = max 1 (real_of_int \<lfloor>bsize settings / 2\<rfloor>);
                    x = real_of_int \<lfloor>px pt / pixelSize\<rfloor> * pixelSize;
                    y = real_of_int \<lfloor>py pt / pixelSize\<rfloor> * pixelSize;
                    ctx1 = c0\<lparr>fillStyle :=
                              Solid (if tool settings = ERASER then beige else color settings)\<rparr>;
                    ctx2 = set_globalAlpha 1 ctx1
                in Normal () (set_ctx (fillRect x y pixelSize pixelSize ctx2) st))
             else
               (if 0 < jitter settings then
                  (case Math_random st of (r1, sa) \<Rightarrow>
                   case Math_random sa of (r2, sb) \<Rightarrow>
                     paint_brush settings
                       (px pt + (r1 - 1 / 2) * jitter settings * size' * 2)
                       (py pt + (r2 - 1 / 2) * jitter settings * size' * 2) size' c0 sb)
                else paint_brush settings (px pt + 0) (py pt + 0) size' c0 st))"

text \<open>
  \<open>drawStamp\<close> on a point whose \<open>x\<close> and \<open>y\<close> are NaN, as \<open>interpolate\<close> passes it when
  \<open>dist = 0\<close>. Every position computed from the point is NaN. \<open>fillRect\<close> and \<open>arc\<close>
  return without effect on an argument that is not finite, so the fill that follows
  paints an empty path; \<open>createRadialGradient\<close> throws a \<open>TypeError\<close> on such an argument.
\<close>

definition drawStamp_NaN :: "DrawingSettings \<Rightarrow> component \<Rightarrow> unit outcome" where
  "drawStamp_NaN settings st0 =
     (case canvasRef st0 of
        None \<Rightarrow> Normal () st0
      | Some cv \<Rightarrow>
          let st = st0\<lparr>stamps := stamps st0 @ [NotFinite]\<rparr>;
              c0 = ctx cv
          in if tool settings = PIXEL then
               (let ctx1 = c0\<lparr>fillStyle :=
                              Solid (if tool settings = ERASER then beige else color settings)\<rparr>;
                    ctx2 = set_globalAlpha 1 ctx1
                in Normal () (set_ctx ctx2 st))
             else
               (let isEraser = (tool settings = ERASER);
                    st1 = (if 0 < jitter settings
                           then snd (Math_random (snd (Math_random st))) else st);
                    ctx1 = set_globalAlpha (opacity settings) c0
                in if hardness settings < 1 then Threw TypeError (set_ctx ctx1 st1)
                   else
                     (let ctx2 = beginPath (ctx1\<lparr>fillStyle :=
                                   Solid (if isEraser then beige else color settings)\<rparr>)
                      in Normal () (set_ctx (fill ctx2) st1))))"

text \<open>
  The loop of \<open>interpolate\<close>. \<open>dx\<close>, \<open>dy\<close>, \<open>dist\<close> and \<open>step\<close> are the constants the source
  computes before the loop; the loop variable is \<open>currentDist\<close>. Every operation is
  rounded. With \<open>dist = 0\<close> the quotient \<open>currentDist / dist\<close> is NaN or infinite, and so
  are \<open>dx * t\<close> and \<open>dy * t\<close> (\<open>dx = dy = 0\<close>): the stamp is requested at NaN. The loop
  need not end: once \<open>currentDist + step\<close> rounds to \<open>currentDist\<close> it repeats forever, and
  the result is \<open>None\<close>.
\<close>

partial_function (option) interpolate_loop ::
  "DrawingSettings \<Rightarrow> point \<Rightarrow> point \<Rightarrow> real \<Rightarrow> component \<Rightarrow> real outcome option" where
  "interpolate_loop settings start endp currentDist st =
     (let dx = fl (px endp - px start);
          dy = fl (py endp - py start);
          dist = fl (sqrt (fl (fl (dx * dx) + fl (dy * dy))));
          step = max (1 / 2) (fl (bsize settings * spacing settings))
      in if currentDist \<le> dist then
           (case (if dist = 0 then drawStamp_NaN settings st
                  else
                    (let t = fl (currentDist / dist);
                         x = fl (px start + fl (dx * t));
                         y = fl (py start + fl (dy * t));
                         startP = pressure_or_default (pressure start);
                         endP = pressure_or_default (pressure endp);
                         pressure' = fl (startP + fl (fl (endP - startP) * t))
                     in drawStamp settings
                          \<lparr>px = x, py = y, pressure = Some pressure', tilt = None\<rparr> st)) of
              Threw e st' \<Rightarrow> Some (Threw e st')
            | Diverges st' \<Rightarrow> Some (Diverges st')
            | Normal u st' \<Rightarrow>
                interpolate_loop settings start endp (fl (currentDist + step)) st')
         else Some (Normal currentDist st))"

definition interpolate :: "DrawingSettings \<Rightarrow> point \<Rightarrow> point \<Rightarrow> component \<Rightarrow> unit outcome" where
  "interpolate settings start endp st =
     (let dx = fl (px endp - px start);
          dy = fl (py endp - py start);
          dist = fl (sqrt (fl (fl (dx * dx) + fl (dy * dy))))
      in case interpolate_loop settings start endp (distRemainder st) st of
           None \<Rightarrow> Diverges st
         | Some (Threw e st') \<Rightarrow> Threw e st'
         | Some (Diverges st') \<Rightarrow> Diverges st'
         | Some (Normal currentDist st') \<Rightarrow>
             Normal () (st'\<lparr>distRemainder := fl (currentDist - dist)\<rparr>))"

definition startDrawing :: "DrawingSettings \<Rightarrow> pointer_event \<Rightarrow> component \<Rightarrow> unit outcome" where
  "startDrawing settings e st =
     (let st1 = st\<lparr>isDrawing := True\<rparr>;
          pt = getCoordinates e st1;
          st2 = st1\<lparr>lastPoint := Some pt\<rparr>;
          st3 = st2\<lparr>distRemainder := 0\<rparr>
      in drawStamp settings pt st3)"

definition continueDrawing :: "DrawingSettings \<Rightarrow> pointer_event \<Rightarrow> component \<Rightarrow> unit outcome" where
  "continueDrawing settings e st =
     (case lastPoint st of
        None \<Rightarrow> Normal () st
      | Some lp \<Rightarrow>
          if \<not> isDrawing st then Normal () st
          else
            (let currentPoint = getCoordinates e st in
             case (if tool settings = PIXEL then drawStamp settings currentPoint st
                   else interpolate settings lp currentPoint st) of
               Threw ex st' \<Rightarrow> Threw ex st'
             | Diverges st' \<Rightarrow> Diverges st'
             | Normal u st' \<Rightarrow> Normal () (st'\<lparr>lastPoint := Some currentPoint\<rparr>)))"

definition stopDrawing :: "component \<Rightarrow> component" where
  "stopDrawing st =
     (if isDrawing st
      then st\<lparr>isDrawing := False, lastPoint := None, signals := signals st @ [StrokeEnd]\<rparr>
      else st)"

text \<open>
  \<open>loadImage\<close>: \<open>decode\<close> is the browser's image decoder on the data URL built from the
  payload. When it succeeds the \<open>onload\<close> handler draws the image over the whole canvas;
  the source installs no \<open>onerror\<close> handler, so when it fails nothing runs.
\<close>

definition loadImage :: "(string \<Rightarrow> image option) \<Rightarrow> string \<Rightarrow> component \<Rightarrow> component" where
  "loadImage decode base64 st =
     (case canvasRef st of
        None \<Rightarrow> st
      | Some canvas \<Rightarrow>
          (case decode (''data:image/png;base64,'' @ base64) of
             None \<Rightarrow> st
           | Some img \<Rightarrow>
               set_ctx (drawImage img (width canvas) (height canvas) (ctx canvas)) st))"

section \<open>Reading the state, and concrete inputs\<close>

text \<open>The bitmap of the canvas, when there is one.\<close>

definition surface :: "component \<Rightarrow> (real \<times> real \<Rightarrow> rgb) option" where
  "surface st = map_option (\<lambda>cv. bitmap (ctx cv)) (canvasRef st)"


text \<open>The settings \<open>App.tsx\<close> starts with.\<close>

definition initial_settings :: DrawingSettings where
  "initial_settings =
     \<lparr>color = (28, 25, 23), bsize = 10, opacity = 1, hardness = 1, spacing = 1 / 10,
      jitter = 0, tool = PENCIL, isStylus = False\<rparr>"

text \<open>
  The component after it has mounted on a canvas of the given position and extent: the
  effect has filled the canvas with the background colour, and no stroke is active.
\<close>

definition mounted :: "real \<Rightarrow> real \<Rightarrow> real \<Rightarrow> real \<Rightarrow> (nat \<Rightarrow> real) \<Rightarrow> component" where
  "mounted rl rt w h rnd =
     \<lparr>isDrawing = False, lastPoint = None, distRemainder = 0,
      canvasRef = Some \<lparr>rect_left = rl, rect_top = rt, width = w, height = h,
        ctx = \<lparr>fillStyle = Solid beige, globalAlpha = 1, path = [], bitmap = (\<lambda>q. beige)\<rparr>\<rparr>,
      random_source = rnd, signals = [], stamps = []\<rparr>"

definition blank :: component where
  "blank = mounted 0 0 200 50 (\<lambda>n. 0)"

definition pointer_at :: "real \<Rightarrow> real \<Rightarrow> pointer_event" where
  "pointer_at cx cy = \<lparr>clientX = cx, clientY = cy, ev_pressure = 1 / 2, tiltX = 0\<rparr>"

text \<open>A stroke in progress: pointer down at \<open>(0, 0)\<close>, one move to \<open>(5, 0)\<close>.\<close>

definition short_stroke :: component where
  "short_stroke =
     state_of (continueDrawing initial_settings (pointer_at 5 0)
       (state_of (startDrawing initial_settings (pointer_at 0 0) blank)))"

definition pixel_settings :: DrawingSettings where
  "pixel_settings = initial_settings\<lparr>tool := PIXEL\<rparr>"


definition soft_settings :: DrawingSettings where
  "soft_settings = initial_settings\<lparr>bsize := 20, hardness := 1 / 2\<rparr>"

text \<open>
  What a brush stamp that raises no exception does to the context: the global alpha is
  set, the fill style is the gradient or the solid colour, the path is the one disc, and
  the path is filled.
\<close>

definition brush_paint ::
  "DrawingSettings \<Rightarrow> real \<Rightarrow> real \<Rightarrow> real \<Rightarrow> context2d \<Rightarrow> context2d" where
  "brush_paint s cx cy sz c =
     fill ((set_globalAlpha (opacity s) c)
        \<lparr>fillStyle := (if hardness s < 1
            then Gradient \<lparr>g_cx = cx, g_cy = cy, g_r = sz / 2,
               stops = [(hardness s, (if tool s = ERASER then beige else color s, 1)),
                        (1, (if tool s = ERASER then beige else color s, 0))]\<rparr>
            else Solid (if tool s = ERASER then beige else color s)),
          path := [\<lparr>d_cx = cx, d_cy = cy, d_r = sz / 2\<rparr>]\<rparr>)"

text \<open>The jitter offsets of a stamp of size \<open>sz\<close>, and the state after the two draws.\<close>

definition jitter_x :: "DrawingSettings \<Rightarrow> real \<Rightarrow> component \<Rightarrow> real" where
  "jitter_x s sz st =
     (if 0 < jitter s then (random_source st 0 - 1 / 2) * jitter s * sz * 2 else 0)"

definition jitter_y :: "DrawingSettings \<Rightarrow> real \<Rightarrow> component \<Rightarrow> real" where
  "jitter_y s sz st =
     (if 0 < jitter s then (random_source st 1 - 1 / 2) * jitter s * sz * 2 else 0)"

definition after_jitter :: "DrawingSettings \<Rightarrow> component \<Rightarrow> component" where
  "after_jitter s st =
     (if 0 < jitter s then st\<lparr>random_source := (\<lambda>n. random_source st (Suc (Suc n)))\<rparr>
      else st)"

section \<open>Stating the walk along a segment\<close>

text \<open>The distance of two points, as \<open>interpolate\<close> computes it.\<close>

definition seg_length :: "point \<Rightarrow> point \<Rightarrow> real" where
  "seg_length a b =
     fl (sqrt (fl (fl (fl (px b - px a) * fl (px b - px a)) +
                   fl (fl (py b - py a) * fl (py b - py a)))))"

text \<open>The spacing step of \<open>interpolate\<close>.\<close>

definition step_of :: "DrawingSettings \<Rightarrow> real" where
  "step_of s = max (1 / 2) (fl (bsize s * spacing s))"

text \<open>
  The stamp request that the loop of \<open>interpolate\<close> makes at the parameter \<open>t\<close> of the
  segment from \<open>a\<close> to \<open>b\<close>.
\<close>

definition stamp_on :: "point \<Rightarrow> point \<Rightarrow> real \<Rightarrow> point" where
  "stamp_on a b t =
     \<lparr>px = fl (px a + fl (fl (px b - px a) * fl (t / seg_length a b))),
      py = fl (py a + fl (fl (py b - py a) * fl (t / seg_length a b))),
      pressure = Some (fl (pressure_or_default (pressure a) +
                           fl (fl (pressure_or_default (pressure b) -
                                   pressure_or_default (pressure a)) *
                               fl (t / seg_length a b)))),
      tilt = None\<rparr>"

text \<open>
  The \<open>k\<close>-th parameter of a walk that starts at \<open>t\<close>: \<open>step\<close> added \<open>k\<close> times, each sum
  rounded.
\<close>

definition walk_param :: "real \<Rightarrow> real \<Rightarrow> nat \<Rightarrow> real" where
  "walk_param step t k = ((\<lambda>v. fl (v + step)) ^^ k) t"

text \<open>
  \<open>interpolate\<close> called on each segment of a polyline in turn, each call starting from
  the state, and so the remainder, that the previous call left; an exception ends the
  sequence.
\<close>

fun interpolate_path :: "DrawingSettings \<Rightarrow> point list \<Rightarrow> component \<Rightarrow> unit outcome" where
  "interpolate_path s (a # b # ps) st =
     (case interpolate s a b st of
        Threw e st' \<Rightarrow> Threw e st'
      | Diverges st' \<Rightarrow> Diverges st'
      | Normal u st' \<Rightarrow> interpolate_path s (b # ps) st')"
| "interpolate_path s ps st = Normal () st"

text \<open>
  The length of a polyline: the sum of the distances of its consecutive points, each as
  \<open>interpolate\<close> computes it. A polyline is proper when each of these distances is
  positive.
\<close>

fun path_length :: "point list \<Rightarrow> real" where
  "path_length (a # b # ps) = seg_length a b + path_length (b # ps)"
| "path_length ps = 0"

fun proper_segments :: "point list \<Rightarrow> bool" where
  "proper_segments (a # b # ps) = (0 < seg_length a b \<and> proper_segments (b # ps))"
| "proper_segments ps = True"

text \<open>
  A point whose pressure is present, positive and a double, as \<open>getCoordinates\<close> makes
  it from a pointer event.
\<close>

definition double_pressure :: "point \<Rightarrow> bool" where
  "double_pressure a = (case pressure a of None \<Rightarrow> False | Some p \<Rightarrow> 0 < p \<and> fl p = p)"

text \<open>A point as \<open>getCoordinates\<close> makes it for a mouse with a button down.\<close>

definition mouse_pt :: "real \<Rightarrow> real \<Rightarrow> point" where
  "mouse_pt vx vy = \<lparr>px = vx, py = vy, pressure = Some (1 / 2), tilt = Some 0\<rparr>"

text \<open>
  The initial settings with the size slider at 3 and the spacing slider at 0.2: the
  spacing is the double nearest to 0.2.
\<close>

definition fine_settings :: DrawingSettings where
  "fine_settings = initial_settings\<lparr>bsize := 3, spacing := fl (1 / 5)\<rparr>"

text \<open>The component after a pointer down at \<open>(10, 10)\<close> on the blank canvas.\<close>

definition tap_down :: component where
  "tap_down = state_of (startDrawing initial_settings (pointer_at 10 10) blank)"

section \<open>Facts about rounding\<close>

lemma rhe_int [simp]: "round_half_even (of_int n) = n"
  by (simp add: round_half_even_def)

lemma rhe_floor: "\<lfloor>z\<rfloor> \<le> round_half_even z" "round_half_even z \<le> \<lfloor>z\<rfloor> + 1"
  by (simp_all add: round_half_even_def Let_def)

lemma rhe_ge: "of_int n \<le> z \<Longrightarrow> n \<le> round_half_even z"
proof -
  assume "of_int n \<le> z"
  then have "n \<le> \<lfloor>z\<rfloor>" by (simp add: le_floor_iff)
  with rhe_floor(1) [of z] show ?thesis by linarith
qed

lemma rhe_le: "z \<le> of_int n \<Longrightarrow> round_half_even z \<le> n"
proof (cases "z = of_int n")
  case True
  then show ?thesis by simp
next
  case False
  assume "z \<le> of_int n"
  with False have "z < of_int n" by simp
  then have "\<lfloor>z\<rfloor> < n" by (simp add: floor_less_iff)
  with rhe_floor(2) [of z] show ?thesis by linarith
qed

lemma rhe_err: "\<bar>of_int (round_half_even z) - z\<bar> \<le> 1 / 2"
proof -
  have "of_int \<lfloor>z\<rfloor> \<le> z" "z < of_int \<lfloor>z\<rfloor> + 1" by linarith+
  then show ?thesis
    unfolding round_half_even_def Let_def by (auto simp: abs_le_iff)
qed

lemma floor_neg_nonint: "z \<notin> \<int> \<Longrightarrow> \<lfloor>- z\<rfloor> = - \<lfloor>z\<rfloor> - 1"
proof -
  assume a: "z \<notin> \<int>"
  have "of_int \<lfloor>z\<rfloor> \<noteq> z" using a by (metis Ints_of_int)
  moreover have "of_int \<lfloor>z\<rfloor> \<le> z" "z < of_int \<lfloor>z\<rfloor> + 1" by linarith+
  ultimately have "of_int \<lfloor>z\<rfloor> < z" by linarith
  with \<open>z < of_int \<lfloor>z\<rfloor> + 1\<close>
  have "of_int (- \<lfloor>z\<rfloor> - 1) \<le> - z" "- z < of_int (- \<lfloor>z\<rfloor> - 1) + 1" by simp_all
  then show ?thesis by (rule floor_unique)
qed

lemma rhe_neg: "round_half_even (- z) = - round_half_even z"
proof (cases "z \<in> \<int>")
  case True
  then obtain n where "z = of_int n" by (auto elim: Ints_cases)
  then show ?thesis using rhe_int [of "- n"] by simp
next
  case False
  have c: "\<lfloor>- z\<rfloor> = - \<lfloor>z\<rfloor> - 1" by (rule floor_neg_nonint [OF False])
  have e: "even (- \<lfloor>z\<rfloor> - 1) \<longleftrightarrow> odd \<lfloor>z\<rfloor>" by simp
  show ?thesis
    unfolding round_half_even_def Let_def c e
    by (auto simp: algebra_simps)
qed

lemma binade_bounds:
  assumes "x \<noteq> 0"
  shows "2 powr of_int (binade x) \<le> \<bar>x\<bar>" and "\<bar>x\<bar> < 2 powr of_int (binade x + 1)"
proof -
  have pos: "0 < \<bar>x\<bar>" using assms by simp
  have "of_int (binade x) \<le> log 2 \<bar>x\<bar>" by (simp add: binade_def)
  then have "2 powr of_int (binade x) \<le> 2 powr log 2 \<bar>x\<bar>" by (simp add: powr_mono)
  then show "2 powr of_int (binade x) \<le> \<bar>x\<bar>" using pos by simp
  have "log 2 \<bar>x\<bar> < of_int (binade x + 1)" by (simp add: binade_def)
  then have "2 powr log 2 \<bar>x\<bar> < 2 powr of_int (binade x + 1)" by (simp add: powr_less_mono)
  then show "\<bar>x\<bar> < 2 powr of_int (binade x + 1)" using pos by simp
qed

lemma binade_unique:
  assumes "2 powr of_int e \<le> \<bar>x\<bar>" and "\<bar>x\<bar> < 2 powr of_int (e + 1)"
  shows "binade x = e"
proof -
  have "(0::real) < 2 powr of_int e" by simp
  with assms(1) have pos: "0 < \<bar>x\<bar>" by linarith
  have "of_int e \<le> log 2 \<bar>x\<bar>" using assms(1) pos by (simp add: le_log_iff)
  moreover have "log 2 \<bar>x\<bar> < of_int e + 1" using assms(2) pos by (simp add: log_less_iff)
  ultimately show ?thesis unfolding binade_def by (rule floor_unique)
qed

lemma binade_neg [simp]: "binade (- x) = binade x"
  by (simp add: binade_def)

lemma fl_zero [simp]: "fl 0 = 0"
  by (simp add: fl_def)

lemma fl_neg: "fl (- x) = - fl x"
  by (simp add: fl_def rhe_neg)

lemma fl_eval:
  assumes "2 powr of_int e \<le> \<bar>x\<bar>" and "\<bar>x\<bar> < 2 powr of_int (e + 1)"
  shows "fl x = of_int (round_half_even (x / 2 powr of_int (e - 52))) * 2 powr of_int (e - 52)"
proof -
  have "(0::real) < 2 powr of_int e" by simp
  with assms(1) have "x \<noteq> 0" by auto
  then show ?thesis by (simp add: fl_def binade_unique [OF assms])
qed

lemma fl_err:
  assumes "x \<noteq> 0"
  shows "\<bar>fl x - x\<bar> \<le> 2 powr of_int (binade x - 53)"
proof -
  define u :: real where "u = 2 powr of_int (binade x - 52)"
  have u: "0 < u" by (simp add: u_def)
  have "fl x - x = (of_int (round_half_even (x / u)) - x / u) * u"
    using assms u by (simp add: fl_def u_def algebra_simps)
  then have "\<bar>fl x - x\<bar> = \<bar>of_int (round_half_even (x / u)) - x / u\<bar> * u"
    using u by (simp add: abs_mult)
  also have "\<dots> \<le> 1 / 2 * u" using rhe_err [of "x / u"] u by (simp add: mult_right_mono)
  also have "1 / 2 * u = 2 powr of_int (binade x - 53)"
  proof -
    have "(2::real) powr of_int (binade x - 52) = 2 powr (of_int (binade x - 53) + 1)" by simp
    also have "\<dots> = 2 powr of_int (binade x - 53) * 2" by (simp only: powr_add) simp
    finally show ?thesis by (simp add: u_def)
  qed
  finally show ?thesis .
qed

lemma fl_in_binade:
  assumes "0 < x"
  shows "2 powr of_int (binade x) \<le> fl x" and "fl x \<le> 2 powr of_int (binade x + 1)"
proof -
  define u :: real where "u = 2 powr of_int (binade x - 52)"
  have u: "0 < u" by (simp add: u_def)
  have x: "x \<noteq> 0" "\<bar>x\<bar> = x" using assms by simp_all
  have lo: "(2::real) powr of_int (binade x) = of_int (2 ^ 52) * u"
  proof -
    have "(2::real) powr of_int (binade x) = 2 powr (52 + of_int (binade x - 52))" by simp
    also have "\<dots> = 2 powr 52 * u" by (simp only: powr_add u_def)
    finally show ?thesis by simp
  qed
  have hi: "(2::real) powr of_int (binade x + 1) = of_int (2 ^ 53) * u"
  proof -
    have "(2::real) powr of_int (binade x + 1) = 2 powr (53 + of_int (binade x - 52))" by (simp add: add.commute)
    also have "\<dots> = 2 powr 53 * u" by (simp only: powr_add u_def)
    finally show ?thesis by simp
  qed
  have f: "fl x = of_int (round_half_even (x / u)) * u" using x by (simp add: fl_def u_def)
  have "of_int (2 ^ 52) * u \<le> x" using binade_bounds(1) [OF x(1)] x(2) lo by simp
  then have "of_int (2 ^ 52) \<le> x / u" using u by (simp add: pos_le_divide_eq)
  then have "2 ^ 52 \<le> round_half_even (x / u)" by (rule rhe_ge)
  then have "of_int (2 ^ 52) \<le> (of_int (round_half_even (x / u)) :: real)" by (simp only: of_int_le_iff)
  then show "2 powr of_int (binade x) \<le> fl x" using u unfolding lo f by (simp add: mult_right_mono)
  have "x \<le> of_int (2 ^ 53) * u" using binade_bounds(2) [OF x(1)] x(2) hi by simp
  then have "x / u \<le> of_int (2 ^ 53)" using u by (simp add: pos_divide_le_eq)
  then have "round_half_even (x / u) \<le> 2 ^ 53" by (rule rhe_le)
  then have "(of_int (round_half_even (x / u)) :: real) \<le> of_int (2 ^ 53)" by (simp only: of_int_le_iff)
  then show "fl x \<le> 2 powr of_int (binade x + 1)" using u unfolding hi f by (simp add: mult_right_mono)
qed

lemma fl_pos: "0 < x \<Longrightarrow> 0 < fl x"
proof -
  assume "0 < x"
  from fl_in_binade(1) [OF this] have "2 powr of_int (binade x) \<le> fl x" .
  moreover have "(0::real) < 2 powr of_int (binade x)" by simp
  ultimately show ?thesis by linarith
qed

lemma fl_scaled:
  assumes "x \<noteq> 0"
  shows "fl x = of_int (round_half_even (x / 2 powr of_int (binade x - 52))) *
                2 powr of_int (binade x - 52)"
  using assms by (simp add: fl_def)

lemma fl_lower_pos:
  assumes "fl c = c" and "0 < c" and "c \<le> x"
  shows "c \<le> fl x"
proof (cases "c < 2 powr of_int (binade x)")
  case True
  have "0 < x" using assms(2,3) by simp
  from fl_in_binade(1) [OF this] True show ?thesis by linarith
next
  case False
  define u :: real where "u = 2 powr of_int (binade x - 52)"
  have u: "0 < u" by (simp add: u_def)
  have x: "0 < x" "x \<noteq> 0" "\<bar>x\<bar> = x" using assms(2,3) by simp_all
  have c: "c \<noteq> 0" "\<bar>c\<bar> = c" using assms(2) by simp_all
  have "\<bar>c\<bar> < 2 powr of_int (binade x + 1)"
    using binade_bounds(2) [OF x(2)] x(3) c(2) assms(3) by linarith
  moreover have "2 powr of_int (binade x) \<le> \<bar>c\<bar>" using False c(2) by simp
  ultimately have bc: "binade c = binade x" by (intro binade_unique)
  have "c = of_int (round_half_even (c / u)) * u"
    using fl_scaled [OF c(1)] assms(1) by (simp add: bc u_def)
  then have cu: "c / u = of_int (round_half_even (c / u))" using u by (simp add: field_simps)
  have "c / u \<le> x / u" using assms(3) u by (simp add: divide_right_mono)
  then have "of_int (round_half_even (c / u)) \<le> x / u" using cu by simp
  then have "round_half_even (c / u) \<le> round_half_even (x / u)" by (rule rhe_ge)
  then have "(of_int (round_half_even (c / u)) :: real) \<le> of_int (round_half_even (x / u))"
    by (simp only: of_int_le_iff)
  then have "of_int (round_half_even (c / u)) * u \<le> of_int (round_half_even (x / u)) * u"
    using u by (simp add: mult_right_mono)
  moreover have "fl x = of_int (round_half_even (x / u)) * u"
    using fl_scaled [OF x(2)] by (simp add: u_def)
  moreover have "of_int (round_half_even (c / u)) * u = c" using cu u by (simp add: field_simps)
  ultimately show ?thesis by simp
qed

lemma fl_upper_pos:
  assumes "fl c = c" and "0 < x" and "x \<le> c"
  shows "fl x \<le> c"
proof (cases "2 powr of_int (binade x + 1) \<le> c")
  case True
  from fl_in_binade(2) [OF assms(2)] True show ?thesis by linarith
next
  case False
  define u :: real where "u = 2 powr of_int (binade x - 52)"
  have u: "0 < u" by (simp add: u_def)
  have x: "x \<noteq> 0" "\<bar>x\<bar> = x" using assms(2) by simp_all
  have c: "c \<noteq> 0" "\<bar>c\<bar> = c" using assms(2,3) by simp_all
  have "2 powr of_int (binade x) \<le> \<bar>c\<bar>"
    using binade_bounds(1) [OF x(1)] x(2) c(2) assms(3) by linarith
  moreover have "\<bar>c\<bar> < 2 powr of_int (binade x + 1)" using False c(2) by simp
  ultimately have bc: "binade c = binade x" by (intro binade_unique)
  have "c = of_int (round_half_even (c / u)) * u"
    using fl_scaled [OF c(1)] assms(1) by (simp add: bc u_def)
  then have cu: "c / u = of_int (round_half_even (c / u))" using u by (simp add: field_simps)
  have "x / u \<le> c / u" using assms(3) u by (simp add: divide_right_mono)
  then have "x / u \<le> of_int (round_half_even (c / u))" using cu by simp
  then have "round_half_even (x / u) \<le> round_half_even (c / u)" by (rule rhe_le)
  then have "(of_int (round_half_even (x / u)) :: real) \<le> of_int (round_half_even (c / u))"
    by (simp only: of_int_le_iff)
  then have "of_int (round_half_even (x / u)) * u \<le> of_int (round_half_even (c / u)) * u"
    using u by (simp add: mult_right_mono)
  moreover have "fl x = of_int (round_half_even (x / u)) * u"
    using fl_scaled [OF x(1)] by (simp add: u_def)
  moreover have "of_int (round_half_even (c / u)) * u = c" using cu u by (simp add: field_simps)
  ultimately show ?thesis by simp
qed

lemma fl_lower:
  assumes "fl c = c" and "c \<le> x"
  shows "c \<le> fl x"
proof -
  consider "x = 0" | "0 < x" "c \<le> 0" | "0 < x" "0 < c" | "x < 0" by linarith
  then show ?thesis
  proof cases
    case 1
    then show ?thesis using assms(2) by simp
  next
    case 2
    then show ?thesis using fl_pos [of x] by linarith
  next
    case 3
    then show ?thesis using fl_lower_pos [OF assms(1) _ assms(2)] by simp
  next
    case 4
    have "fl (- c) = - c" using assms(1) by (simp add: fl_neg)
    moreover have "0 < - x" "- x \<le> - c" using 4 assms(2) by simp_all
    ultimately have "fl (- x) \<le> - c" by (rule fl_upper_pos)
    then show ?thesis by (simp add: fl_neg)
  qed
qed

lemma fl_upper:
  assumes "fl c = c" and "x \<le> c"
  shows "fl x \<le> c"
proof -
  have "fl (- c) = - c" using assms(1) by (simp add: fl_neg)
  moreover have "- c \<le> - x" using assms(2) by simp
  ultimately have "- c \<le> fl (- x)" by (rule fl_lower)
  then show ?thesis by (simp add: fl_neg)
qed

lemma fl_nonneg: "0 \<le> x \<Longrightarrow> 0 \<le> fl x"
  using fl_lower [of 0 x] by simp

lemma fl_dyadic:
  assumes "\<bar>m\<bar> < 2 ^ 53"
  shows "fl (of_int m * 2 powr of_int k) = of_int m * 2 powr of_int k"
proof (cases "m = 0")
  case True
  then show ?thesis by simp
next
  case False
  define x :: real where "x = of_int m * 2 powr of_int k"
  define e where "e = binade x"
  have x: "x \<noteq> 0" using False by (simp add: x_def)
  have "\<bar>x\<bar> = of_int \<bar>m\<bar> * 2 powr of_int k" by (simp add: x_def abs_mult)
  also have "\<dots> < of_int (2 ^ 53) * 2 powr of_int k"
    using assms by (intro mult_strict_right_mono) (simp_all only: of_int_less_iff powr_gt_zero)
  also have "\<dots> = 2 powr (53 + of_int k)" by (simp only: powr_add) simp
  finally have "\<bar>x\<bar> < 2 powr (53 + of_int k)" .
  with binade_bounds(1) [OF x] have "(2::real) powr of_int e < 2 powr (53 + of_int k)"
    unfolding e_def by linarith
  then have "real_of_int e < 53 + of_int k" by simp
  then have d: "0 \<le> k - (e - 52)" by linarith
  have "x / 2 powr of_int (e - 52) = of_int m * 2 powr (of_int k - of_int (e - 52))"
    by (simp add: x_def powr_diff)
  also have "of_int k - of_int (e - 52) = real (nat (k - (e - 52)))" using d by simp
  also have "of_int m * 2 powr real (nat (k - (e - 52))) = of_int (m * 2 ^ nat (k - (e - 52)))"
    by (simp add: powr_realpow)
  finally have "round_half_even (x / 2 powr of_int (e - 52)) = m * 2 ^ nat (k - (e - 52))"
    by (simp only: rhe_int)
  then have "fl x = of_int (m * 2 ^ nat (k - (e - 52))) * 2 powr of_int (e - 52)"
    using fl_scaled [OF x] by (simp only: e_def)
  also have "\<dots> = of_int m * (2 powr real (nat (k - (e - 52))) * 2 powr of_int (e - 52))"
    by (simp add: powr_realpow)
  also have "2 powr real (nat (k - (e - 52))) * 2 powr of_int (e - 52) = (2::real) powr of_int k"
    using d by (simp add: powr_add [symmetric])
  finally show ?thesis by (simp add: x_def)
qed

lemma fl_of_int: "\<bar>m\<bar> < 2 ^ 53 \<Longrightarrow> fl (of_int m) = of_int m"
  using fl_dyadic [of m 0] by simp

lemma fl_numeral [simp]: "numeral w < (2::real) ^ 53 \<Longrightarrow> fl (numeral w) = numeral w"
proof -
  assume "numeral w < (2::real) ^ 53"
  then have "real_of_int (numeral w) < real_of_int (2 ^ 53)" by simp
  then have "\<bar>numeral w :: int\<bar> < 2 ^ 53" by (simp only: of_int_less_iff) simp
  from fl_of_int [OF this] show ?thesis by simp
qed

lemma fl_one [simp]: "fl 1 = 1"
  using fl_of_int [of 1] by simp

lemma fl_half [simp]: "fl (1 / 2) = 1 / 2"
  using fl_dyadic [of 1 "- 1"] by (simp add: powr_minus_divide)

lemma fl_progress:
  assumes "0 \<le> t" and "1 / 2 \<le> s" and "t + s < 2 ^ 52"
  shows "t + 1 / 4 \<le> fl (t + s)"
proof -
  define y where "y = t + s"
  have y: "0 < y" "y \<noteq> 0" "\<bar>y\<bar> = y" using assms(1,2) by (simp_all add: y_def)
  have "(2::real) powr of_int 52 = 2 ^ 52" by simp
  then have "(2::real) powr of_int (binade y) < 2 powr of_int 52"
    using binade_bounds(1) [OF y(2)] y(3) assms(3) unfolding y_def by linarith
  then have "real_of_int (binade y) < real_of_int 52"
    by (subst (asm) powr_less_cancel_iff) simp_all
  then have "binade y - 53 \<le> - 2" by linarith
  then have "(2::real) powr of_int (binade y - 53) \<le> 2 powr of_int (- 2)"
    by (subst powr_le_cancel_iff) simp_all
  also have "(2::real) powr of_int (- 2) = 1 / 4" by (simp add: powr_minus_divide)
  finally have "\<bar>fl y - y\<bar> \<le> 1 / 4" using fl_err [OF y(2)] by linarith
  then have "y - 1 / 4 \<le> fl y" by linarith
  then show ?thesis using assms(2) unfolding y_def by linarith
qed

lemma fl_eval_nat:
  assumes "2 ^ a \<le> \<bar>x\<bar> * 2 ^ b" and "\<bar>x\<bar> * 2 ^ b < 2 * 2 ^ a"
  shows "fl x = of_int (round_half_even (x * 2 ^ (52 + b) / 2 ^ a)) * 2 ^ a / 2 ^ (52 + b)"
proof -
  have p: "(2::real) powr of_int (int a - int b) = 2 ^ a / 2 ^ b"
    by (simp add: powr_diff powr_realpow)
  have q: "(2::real) powr of_int (int a - int b + 1) = 2 * 2 ^ a / 2 ^ b"
    by (simp add: powr_diff powr_add powr_realpow)
  have r: "(2::real) powr of_int (int a - int b - 52) = 2 ^ a / 2 ^ (52 + b)"
  proof -
    have "real_of_int (int a - int b - 52) = real a - real (52 + b)" by simp
    then have "(2::real) powr of_int (int a - int b - 52) = 2 powr (real a - real (52 + b))"
      by (simp only:)
    also have "\<dots> = 2 ^ a / 2 ^ (52 + b)" by (simp only: powr_diff powr_realpow)
    finally show ?thesis .
  qed
  have "2 powr of_int (int a - int b) \<le> \<bar>x\<bar>"
    unfolding p using assms(1) by (simp add: field_simps)
  moreover have "\<bar>x\<bar> < 2 powr of_int (int a - int b + 1)"
    unfolding q using assms(2) by (simp add: field_simps)
  ultimately have "fl x = of_int (round_half_even (x / 2 powr of_int (int a - int b - 52))) *
      2 powr of_int (int a - int b - 52)"
    by (rule fl_eval)
  then show ?thesis unfolding r by simp
qed

section \<open>Basic facts\<close>

lemma sqrt_25: "sqrt 25 = 5"
  by (rule real_sqrt_unique) simp_all

lemma stamps_set_ctx [simp]: "stamps (set_ctx c st) = stamps st"
  by (simp add: set_ctx_def)

lemma distRemainder_set_ctx [simp]: "distRemainder (set_ctx c st) = distRemainder st"
  by (simp add: set_ctx_def)

lemma paint_brush_stamps: "stamps (state_of (paint_brush s cx cy sz c st)) = stamps st"
  by (simp add: paint_brush_def Let_def split: sum.splits)

lemma paint_brush_distRemainder:
  "distRemainder (state_of (paint_brush s cx cy sz c st)) = distRemainder st"
  by (simp add: paint_brush_def Let_def split: sum.splits)

lemma drawStamp_stamps:
  "canvasRef st \<noteq> None \<Longrightarrow> stamps (state_of (drawStamp s pt st)) = stamps st @ [At pt]"
  by (auto simp: drawStamp_def Let_def paint_brush_stamps Math_random_def
           split: option.splits prod.splits)

lemma drawStamp_distRemainder:
  "distRemainder (state_of (drawStamp s pt st)) = distRemainder st"
  by (auto simp: drawStamp_def Let_def paint_brush_distRemainder Math_random_def
           split: option.splits prod.splits)

lemma short_stroke_remainder: "isDrawing short_stroke \<and> distRemainder short_stroke = 1"
  by (simp add: short_stroke_def blank_def pointer_at_def continueDrawing_def
        startDrawing_def initial_settings_def mounted_def getCoordinates_def drawStamp_def
        Let_def paint_brush_def set_ctx_def arc_def beginPath_def set_globalAlpha_def
        interpolate_def interpolate_loop.simps sqrt_25 fill_def)

lemma surface_set_ctx: "canvasRef st = Some cv \<Longrightarrow> surface (set_ctx c st) = Some (bitmap c)"
  by (simp add: surface_def set_ctx_def)


lemma path_fill [simp]: "path (fill c) = path c"
  by (simp add: fill_def)

lemma blend_zero [simp]: "blend 0 c d = d"
  by (cases c; cases d) (simp add: blend_def)

lemma mix_fade: "mix (c, 1) (c, 0) f = (c, 1 - f)"
  by (cases c) (simp add: mix_def)

lemma colour_at_fade:
  "colour_at [(h, (c, 1)), (1, (c, 0))] w =
     (c, if w \<le> h then 1 else if w < 1 then 1 - (w - h) / (1 - h) else 0)"
  by (simp add: mix_fade)

lemma paint_brush_hard:
  assumes "\<not> hardness s < 1" and "0 \<le> sz"
  shows "paint_brush s cx cy sz c st =
     Normal () (set_ctx (fill ((set_globalAlpha (opacity s) c)
        \<lparr>fillStyle := Solid (if tool s = ERASER then beige else color s),
          path := [\<lparr>d_cx = cx, d_cy = cy, d_r = sz / 2\<rparr>]\<rparr>)) st)"
  using assms by (simp add: paint_brush_def Let_def arc_def beginPath_def)

lemma paint_brush_soft:
  assumes "hardness s < 1" and "0 \<le> hardness s" and "0 \<le> sz"
  shows "paint_brush s cx cy sz c st =
     Normal () (set_ctx (fill ((set_globalAlpha (opacity s) c)
        \<lparr>fillStyle := Gradient \<lparr>g_cx = cx, g_cy = cy, g_r = sz / 2,
             stops = [(hardness s, (if tool s = ERASER then beige else color s, 1)),
                      (1, (if tool s = ERASER then beige else color s, 0))]\<rparr>,
          path := [\<lparr>d_cx = cx, d_cy = cy, d_r = sz / 2\<rparr>]\<rparr>)) st)"
  using assms
  by (simp add: paint_brush_def Let_def arc_def beginPath_def createRadialGradient_def
        addColorStop_def)

lemma paint_brush_ok:
  assumes "0 \<le> hardness s" and "0 \<le> sz"
  shows "paint_brush s cx cy sz c st = Normal () (set_ctx (brush_paint s cx cy sz c) st)"
  using assms paint_brush_hard [of s sz cx cy c st] paint_brush_soft [of s sz cx cy c st]
  by (simp add: brush_paint_def)

lemma drawStamp_brush:
  assumes "tool s \<noteq> PIXEL" and "canvasRef st = Some cv"
    and "0 \<le> hardness s"
    and "0 \<le> bsize s * (if isStylus s then pressure_or_default (pressure pt) else 1)"
  shows "drawStamp s pt st =
     Normal () (set_ctx
        (brush_paint s
           (px pt + jitter_x s (bsize s * (if isStylus s then pressure_or_default (pressure pt) else 1)) st)
           (py pt + jitter_y s (bsize s * (if isStylus s then pressure_or_default (pressure pt) else 1)) st)
           (bsize s * (if isStylus s then pressure_or_default (pressure pt) else 1)) (ctx cv))
        (after_jitter s (st\<lparr>stamps := stamps st @ [At pt]\<rparr>)))"
  using assms
  by (simp add: drawStamp_def Let_def Math_random_def paint_brush_ok jitter_x_def jitter_y_def
        after_jitter_def)

lemma bitmap_brush_paint:
  assumes "0 \<le> opacity s" and "opacity s \<le> 1" and "0 < sz" and "0 \<le> hardness s"
  shows "bitmap (brush_paint s cx cy sz c) q =
     (let r = sz / 2; d = euclid cx cy (fst q) (snd q);
          col = (if tool s = ERASER then beige else color s)
      in if hardness s < 1 then
           (if d \<le> hardness s * r then blend (opacity s) col (bitmap c q)
            else if d \<le> r then blend (opacity s * ((r - d) / (r - hardness s * r))) col (bitmap c q)
            else bitmap c q)
         else (if d \<le> r then blend (opacity s) col (bitmap c q) else bitmap c q))"
proof (cases "hardness s < 1")
  case False
  then show ?thesis using assms
    by (simp add: brush_paint_def fill_def set_globalAlpha_def in_disc_def paint_at_def over_def Let_def)
next
  case True
  define r where "r = sz / 2"
  define d where "d = euclid cx cy (fst q) (snd q)"
  define h where "h = hardness s"
  define col where "col = (if tool s = ERASER then beige else color s)"
  define g where "g = \<lparr>g_cx = cx, g_cy = cy, g_r = r, stops = [(h, (col, 1)), (1, (col, 0))]\<rparr>"
  define c1 where "c1 = (set_globalAlpha (opacity s) c)
        \<lparr>fillStyle := Gradient g, path := [\<lparr>d_cx = cx, d_cy = cy, d_r = r\<rparr>]\<rparr>"
  have r: "0 < r" using assms(3) by (simp add: r_def)
  have h: "h < 1" "0 \<le> h" using True assms(4) by (simp_all add: h_def)
  have le: "d / r \<le> h \<longleftrightarrow> d \<le> h * r" using r by (simp add: pos_divide_le_eq)
  have lt: "d / r < 1 \<longleftrightarrow> d < r" using r by simp
  have fade: "1 - (d / r - h) / (1 - h) = (r - d) / (r - h * r)"
    using r h by (simp add: field_simps)
  have alpha: "(if d / r \<le> h then 1 else if d / r < 1 then 1 - (d / r - h) / (1 - h) else (0::real)) =
        (if d \<le> h * r then 1 else (r - d) / (r - h * r))" if "d \<le> r"
    using that le lt fade by (cases "d = r") auto
  have bp: "brush_paint s cx cy sz c = fill c1"
    using True by (simp add: brush_paint_def c1_def g_def r_def h_def col_def)
  have paint: "paint_at (fillStyle c1) q =
      (col, if d / r \<le> h then 1 else if d / r < 1 then 1 - (d / r - h) / (1 - h) else 0)"
    using r unfolding c1_def paint_at_def
    by (simp add: g_def colour_at_fade d_def del: colour_at.simps)
  have ga: "globalAlpha c1 = opacity s" "bitmap c1 = bitmap c" "path c1 = [\<lparr>d_cx = cx, d_cy = cy, d_r = r\<rparr>]"
    using assms(1,2) by (simp_all add: c1_def set_globalAlpha_def)
  have inside: "list_ex (in_disc q) (path c1) \<longleftrightarrow> d \<le> r"
    by (simp add: ga in_disc_def d_def)
  have f1: "bitmap (fill c1) q =
      (if d \<le> r then over (opacity s) (paint_at (fillStyle c1) q) (bitmap c q) else bitmap c q)"
    by (simp add: fill_def inside ga(1,2))
  have "bitmap (fill c1) q =
      (if d \<le> r then blend (opacity s * (if d \<le> h * r then 1 else (r - d) / (r - h * r))) col (bitmap c q)
       else bitmap c q)"
  proof (cases "d \<le> r")
    case True
    then show ?thesis by (simp only: f1 paint alpha [OF True] over_def fst_conv snd_conv if_True)
  next
    case False
    then show ?thesis by (simp only: f1 if_False)
  qed
  note main = this
  have hr: "h * r \<le> r" using r h by simp
  have out: "\<not> d \<le> h * r" if "\<not> d \<le> r" using that hr by linarith
  show ?thesis
  proof (cases "d \<le> r")
    case True
    with main \<open>hardness s < 1\<close> show ?thesis
      by (simp add: bp Let_def r_def [symmetric] d_def [symmetric] h_def [symmetric]
          col_def [symmetric])
  next
    case False
    with main out [OF False] \<open>hardness s < 1\<close> show ?thesis
      by (simp add: bp Let_def r_def [symmetric] d_def [symmetric] h_def [symmetric]
          col_def [symmetric])
  qed
qed

lemma over_opaque [simp]: "over 1 (c, 1) d = c"
  by (cases c; cases d) (simp add: over_def blend_def)

lemma drawStamp_pixel:
  assumes "tool settings = PIXEL" and "canvasRef st = Some cv"
  shows "drawStamp settings pt st =
     Normal () (set_ctx
        (fillRect (real_of_int \<lfloor>px pt / max 1 (real_of_int \<lfloor>bsize settings / 2\<rfloor>)\<rfloor> * max 1 (real_of_int \<lfloor>bsize settings / 2\<rfloor>))
                  (real_of_int \<lfloor>py pt / max 1 (real_of_int \<lfloor>bsize settings / 2\<rfloor>)\<rfloor> * max 1 (real_of_int \<lfloor>bsize settings / 2\<rfloor>))
                  (max 1 (real_of_int \<lfloor>bsize settings / 2\<rfloor>)) (max 1 (real_of_int \<lfloor>bsize settings / 2\<rfloor>))
                  ((ctx cv)\<lparr>fillStyle := Solid (color settings), globalAlpha := 1\<rparr>))
        (st\<lparr>stamps := stamps st @ [At pt]\<rparr>))"
  using assms by (simp add: drawStamp_def Let_def set_globalAlpha_def)

lemma bitmap_fillRect_solid:
  assumes "0 \<le> w" "0 \<le> h" "fillStyle c = Solid col" "globalAlpha c = 1"
  shows "bitmap (fillRect x y w h c) =
     (\<lambda>q. if x \<le> fst q \<and> fst q < x + w \<and> y \<le> snd q \<and> snd q < y + h then col else bitmap c q)"
  using assms by (auto simp: fillRect_def paint_at_def min_def max_def fun_eq_iff)

lemma euclid_same_y: "euclid x0 y x1 y = \<bar>x1 - x0\<bar>"
  by (simp add: euclid_def)

section \<open>The loop of interpolate\<close>

lemma step_of_pos: "1 / 2 \<le> step_of s" "0 < step_of s"
  by (simp_all add: step_of_def)

lemma fl_pow50: "fl (2 ^ 50) = 2 ^ 50"
  using fl_of_int [of "2 ^ 50"] by simp

lemma step_of_bound:
  assumes "bsize s * spacing s \<le> 2 ^ 50"
  shows "step_of s \<le> 2 ^ 50"
  using fl_upper [OF fl_pow50 assms] by (simp add: step_of_def)

lemma seg_length_unfold:
  "fl (sqrt (fl (fl (fl (px b - px a) * fl (px b - px a)) +
                 fl (fl (py b - py a) * fl (py b - py a))))) = seg_length a b"
  by (simp add: seg_length_def)

lemma walk_param_0 [simp]: "walk_param step t 0 = t"
  by (simp add: walk_param_def)

lemma walk_param_Suc: "walk_param step t (Suc k) = walk_param step (fl (t + step)) k"
  unfolding walk_param_def by (subst funpow_Suc_right) simp

lemma loop_exit:
  assumes "seg_length a b < t"
  shows "interpolate_loop s a b t st = Some (Normal t st)"
  using assms
  by (subst interpolate_loop.simps) (simp add: Let_def seg_length_unfold)

lemma unit_fraction:
  assumes "0 \<le> t" and "t \<le> d" and "0 < d"
  shows "0 \<le> fl (t / d)" and "fl (t / d) \<le> 1"
proof -
  have "0 \<le> t / d" "t / d \<le> 1" using assms by simp_all
  then show "0 \<le> fl (t / d)" "fl (t / d) \<le> 1"
    using fl_lower [of 0 "t / d"] fl_upper [of 1 "t / d"] by simp_all
qed

lemma pressure_between:
  assumes "0 \<le> p" and "fl p = p" and "0 \<le> q" and "0 \<le> u" and "u \<le> 1"
  shows "0 \<le> fl (p + fl (fl (q - p) * u))"
proof -
  have m: "fl (- p) = - p" using assms(2) by (simp add: fl_neg)
  have "- p \<le> q - p" using assms(3) by simp
  then have d: "- p \<le> fl (q - p)" by (rule fl_lower [OF m])
  have "- p \<le> fl (q - p) * u"
  proof (cases "0 \<le> fl (q - p)")
    case True
    then have "0 \<le> fl (q - p) * u" using assms(4) by simp
    then show ?thesis using assms(1) by linarith
  next
    case False
    then have "fl (q - p) * 1 \<le> fl (q - p) * u"
      using assms(5) by (intro mult_left_mono_neg) simp_all
    then show ?thesis using d by simp
  qed
  then have "- p \<le> fl (fl (q - p) * u)" by (rule fl_lower [OF m])
  then have "0 \<le> p + fl (fl (q - p) * u)" by simp
  then show ?thesis by (rule fl_nonneg)
qed

lemma pressure_or_default_nonneg: "0 \<le> p \<Longrightarrow> 0 \<le> pressure_or_default (Some p)"
  by (simp add: pressure_or_default_def)

lemma loop_step:
  assumes "tool s \<noteq> PIXEL" and "0 \<le> hardness s" and "0 \<le> bsize s"
    and "0 \<le> pressure_or_default (pressure a)"
    and "fl (pressure_or_default (pressure a)) = pressure_or_default (pressure a)"
    and "0 \<le> pressure_or_default (pressure b)"
    and "0 < seg_length a b" and "0 \<le> t" and "t \<le> seg_length a b"
    and "canvasRef st = Some cv"
  shows "\<exists>c1. interpolate_loop s a b t st =
            interpolate_loop s a b (fl (t + step_of s))
              (set_ctx c1 (after_jitter s (st\<lparr>stamps := stamps st @ [At (stamp_on a b t)]\<rparr>)))"
proof -
  define u where "u = fl (t / seg_length a b)"
  have u: "0 \<le> u" "u \<le> 1" using unit_fraction [OF assms(8,9,7)] by (simp_all add: u_def)
  have "0 \<le> pressure_or_default (pressure (stamp_on a b t))"
    using pressure_between [OF assms(4,5,6) u]
    by (simp add: stamp_on_def pressure_or_default_nonneg u_def)
  then have ok: "0 \<le> bsize s * (if isStylus s then pressure_or_default (pressure (stamp_on a b t)) else 1)"
    using assms(3) by simp
  have ne: "seg_length a b \<noteq> 0" using assms(7) by simp
  have st: "stamp_on a b t =
      \<lparr>px = fl (px a + fl (fl (px b - px a) * u)), py = fl (py a + fl (fl (py b - py a) * u)),
       pressure = Some (fl (pressure_or_default (pressure a) +
           fl (fl (pressure_or_default (pressure b) - pressure_or_default (pressure a)) * u))),
       tilt = None\<rparr>"
    by (simp add: stamp_on_def u_def)
  show ?thesis
    apply (subst interpolate_loop.simps)
    using assms(9) ne drawStamp_brush [OF assms(1) assms(10) assms(2) ok]
    apply (simp add: Let_def seg_length_unfold u_def [symmetric] st [symmetric] step_of_def [symmetric])
    apply blast
    done
qed

lemma map_walk_Suc:
  "f t # map (\<lambda>k. f (walk_param step (fl (t + step)) k)) [0..<n] =
   map (\<lambda>k. f (walk_param step t k)) [0..<Suc n]"
proof -
  have "map (\<lambda>k. f (walk_param step t k)) [0..<Suc n] =
        f (walk_param step t 0) # map (\<lambda>k. f (walk_param step t (Suc k))) [0..<n]"
    by (simp add: upt_conv_Cons map_Suc_upt [symmetric] del: upt_Suc)
  then show ?thesis by (simp add: walk_param_Suc)
qed

lemma loop_run:
  assumes "tool s \<noteq> PIXEL" and "0 \<le> hardness s" and "0 \<le> bsize s"
    and "0 \<le> pressure_or_default (pressure a)"
    and "fl (pressure_or_default (pressure a)) = pressure_or_default (pressure a)"
    and "0 \<le> pressure_or_default (pressure b)"
    and "0 < seg_length a b" and "seg_length a b < 2 ^ 51"
    and "bsize s * spacing s \<le> 2 ^ 50"
  shows "0 \<le> t \<Longrightarrow> canvasRef st = Some cv \<Longrightarrow>
     \<exists>n st' cv'. interpolate_loop s a b t st = Some (Normal (walk_param (step_of s) t n) st')
        \<and> (\<forall>k<n. walk_param (step_of s) t k \<le> seg_length a b)
        \<and> seg_length a b < walk_param (step_of s) t n
        \<and> stamps st' = stamps st @
             map (\<lambda>k. At (stamp_on a b (walk_param (step_of s) t k))) [0..<n]
        \<and> canvasRef st' = Some cv'
        \<and> isDrawing st' = isDrawing st \<and> lastPoint st' = lastPoint st
        \<and> distRemainder st' = distRemainder st \<and> signals st' = signals st"
proof (induction "nat (\<lfloor>4 * (seg_length a b - t)\<rfloor> + 1)" arbitrary: t st cv rule: less_induct)
  case less
  show ?case
  proof (cases "t \<le> seg_length a b")
    case False
    then have "interpolate_loop s a b t st = Some (Normal t st)" by (simp add: loop_exit)
    then show ?thesis using False less.prems(2) by (intro exI [of _ 0]) simp
  next
    case True
    from loop_step [OF assms(1-7) less.prems(1) True less.prems(2)]
    obtain c1 where step: "interpolate_loop s a b t st =
        interpolate_loop s a b (fl (t + step_of s))
          (set_ctx c1 (after_jitter s (st\<lparr>stamps := stamps st @ [At (stamp_on a b t)]\<rparr>)))"
      by blast
    define st1 where "st1 = set_ctx c1 (after_jitter s (st\<lparr>stamps := stamps st @ [At (stamp_on a b t)]\<rparr>))"
    define t1 where "t1 = fl (t + step_of s)"
    have st1: "canvasRef st1 = Some (cv\<lparr>ctx := c1\<rparr>)"
      "stamps st1 = stamps st @ [At (stamp_on a b t)]"
      "isDrawing st1 = isDrawing st" "lastPoint st1 = lastPoint st"
      "distRemainder st1 = distRemainder st" "signals st1 = signals st"
      using less.prems(2) by (simp_all add: st1_def set_ctx_def after_jitter_def)
    have "t + step_of s < 2 ^ 52"
      using True assms(8) step_of_bound [OF assms(9)] by simp
    from fl_progress [OF less.prems(1) step_of_pos(1) this]
    have prog: "t + 1 / 4 \<le> t1" by (simp add: t1_def)
    then have "4 * (seg_length a b - t1) \<le> 4 * (seg_length a b - t) - 1" by simp
    then have "\<lfloor>4 * (seg_length a b - t1)\<rfloor> \<le> \<lfloor>4 * (seg_length a b - t) - 1\<rfloor>"
      by (rule floor_mono)
    moreover have "\<lfloor>4 * (seg_length a b - t) - 1\<rfloor> = \<lfloor>4 * (seg_length a b - t)\<rfloor> - 1" by simp
    moreover have "0 \<le> \<lfloor>4 * (seg_length a b - t)\<rfloor>" using True by simp
    ultimately have dec: "nat (\<lfloor>4 * (seg_length a b - t1)\<rfloor> + 1)
        < nat (\<lfloor>4 * (seg_length a b - t)\<rfloor> + 1)" by linarith
    have t': "0 \<le> t1" using less.prems(1) prog by linarith
    from less.hyps [OF dec t' st1(1)]
    obtain n st' cv' where run: "interpolate_loop s a b t1 st1 =
          Some (Normal (walk_param (step_of s) t1 n) st')"
      and le: "\<forall>k<n. walk_param (step_of s) t1 k \<le> seg_length a b"
      and gt: "seg_length a b < walk_param (step_of s) t1 n"
      and stamps: "stamps st' = stamps st1 @
             map (\<lambda>k. At (stamp_on a b (walk_param (step_of s) t1 k))) [0..<n]"
      and rest: "canvasRef st' = Some cv'" "isDrawing st' = isDrawing st1"
        "lastPoint st' = lastPoint st1" "distRemainder st' = distRemainder st1"
        "signals st' = signals st1"
      by blast
    have r1: "interpolate_loop s a b t st = Some (Normal (walk_param (step_of s) t (Suc n)) st')"
      using step run by (simp add: st1_def t1_def walk_param_Suc)
    have r2: "\<forall>k<Suc n. walk_param (step_of s) t k \<le> seg_length a b"
    proof (intro allI impI)
      fix k assume "k < Suc n"
      show "walk_param (step_of s) t k \<le> seg_length a b"
      proof (cases k)
        case 0 then show ?thesis using True by simp
      next
        case (Suc j)
        then have "j < n" using \<open>k < Suc n\<close> by simp
        then show ?thesis using le Suc by (simp add: walk_param_Suc t1_def)
      qed
    qed
    have r3: "seg_length a b < walk_param (step_of s) t (Suc n)"
      using gt by (simp add: walk_param_Suc t1_def)
    have r4: "stamps st' = stamps st @
         map (\<lambda>k. At (stamp_on a b (walk_param (step_of s) t k))) [0..<Suc n]"
      unfolding stamps st1(2) t1_def
      using map_walk_Suc [of "\<lambda>v. At (stamp_on a b v)" t "step_of s" n]
      by simp
    show ?thesis
      using r1 r2 r3 r4 rest st1
      by (intro exI [of _ "Suc n"] exI [of _ st'] exI [of _ cv']) simp
  qed
qed

lemma interpolate_run:
  assumes "tool s \<noteq> PIXEL" and "0 \<le> hardness s" and "0 \<le> bsize s"
    and "0 \<le> pressure_or_default (pressure a)"
    and "fl (pressure_or_default (pressure a)) = pressure_or_default (pressure a)"
    and "0 \<le> pressure_or_default (pressure b)"
    and "0 < seg_length a b" and "seg_length a b < 2 ^ 51"
    and "bsize s * spacing s \<le> 2 ^ 50"
    and "0 \<le> distRemainder st" and "canvasRef st = Some cv"
  shows "\<exists>n st' cv'. interpolate s a b st = Normal () st'
        \<and> (\<forall>k<n. walk_param (step_of s) (distRemainder st) k \<le> seg_length a b)
        \<and> seg_length a b < walk_param (step_of s) (distRemainder st) n
        \<and> stamps st' = stamps st @
             map (\<lambda>k. At (stamp_on a b (walk_param (step_of s) (distRemainder st) k))) [0..<n]
        \<and> distRemainder st' = fl (walk_param (step_of s) (distRemainder st) n - seg_length a b)
        \<and> canvasRef st' = Some cv'"
proof -
  from loop_run [OF assms(1-9) assms(10) assms(11)]
  obtain n st' cv' where run: "interpolate_loop s a b (distRemainder st) st =
        Some (Normal (walk_param (step_of s) (distRemainder st) n) st')"
    and le: "\<forall>k<n. walk_param (step_of s) (distRemainder st) k \<le> seg_length a b"
    and gt: "seg_length a b < walk_param (step_of s) (distRemainder st) n"
    and stamps: "stamps st' = stamps st @
        map (\<lambda>k. At (stamp_on a b (walk_param (step_of s) (distRemainder st) k))) [0..<n]"
    and cr: "canvasRef st' = Some cv'"
    by blast
  have "interpolate s a b st =
      Normal () (st'\<lparr>distRemainder :=
         fl (walk_param (step_of s) (distRemainder st) n - seg_length a b)\<rparr>)"
    by (simp add: interpolate_def Let_def run seg_length_unfold)
  then show ?thesis using le gt stamps cr
    by (intro exI [of _ n]
          exI [of _ "st'\<lparr>distRemainder :=
             fl (walk_param (step_of s) (distRemainder st) n - seg_length a b)\<rparr>"]
          exI [of _ cv']) simp
qed

lemma walk_param_step: "walk_param step t (Suc k) = fl (walk_param step t k + step)"
  by (simp add: walk_param_def)

section \<open>Rounding errors along a walk\<close>

text \<open>
  With all numbers below \<open>2 ^ 22\<close> a rounding moves a value by at most \<open>1 / 2 ^ 32\<close>.
\<close>

lemma fl_err_small:
  assumes "\<bar>x\<bar> < 2 ^ 22"
  shows "\<bar>fl x - x\<bar> \<le> 1 / 2 ^ 32"
proof (cases "x = 0")
  case True
  then show ?thesis by simp
next
  case False
  have "(2::real) powr of_int 22 = 2 ^ 22" by simp
  then have "(2::real) powr of_int (binade x) < 2 powr of_int 22"
    using binade_bounds(1) [OF False] assms by linarith
  then have "real_of_int (binade x) < real_of_int 22"
    by (subst (asm) powr_less_cancel_iff) simp_all
  then have "binade x - 53 \<le> - 32" by linarith
  then have "(2::real) powr of_int (binade x - 53) \<le> 2 powr of_int (- 32)"
    by (subst powr_le_cancel_iff) simp_all
  also have "(2::real) powr of_int (- 32) = 1 / 2 ^ 32" by (simp add: powr_minus_divide)
  finally show ?thesis using fl_err [OF False] by linarith
qed

lemma walk_nonneg:
  assumes "0 \<le> t" and "0 \<le> s"
  shows "0 \<le> walk_param s t k"
proof (induction k)
  case 0
  show ?case using assms(1) by simp
next
  case (Suc k)
  then have "0 \<le> walk_param s t k + s" using assms(2) by simp
  then show ?case unfolding walk_param_step by (rule fl_nonneg)
qed

lemma walk_err:
  assumes "0 \<le> t" and "0 \<le> s" and "s \<le> 2 ^ 20" and "d < 2 ^ 21"
  shows "\<forall>j<k. walk_param s t j \<le> d \<Longrightarrow>
         \<bar>walk_param s t k - (t + real k * s)\<bar> \<le> real k / 2 ^ 32"
proof (induction k)
  case 0
  show ?case by simp
next
  case (Suc k)
  have le: "walk_param s t k \<le> d" using Suc.prems by simp
  have ih: "\<bar>walk_param s t k - (t + real k * s)\<bar> \<le> real k / 2 ^ 32"
    using Suc.IH Suc.prems by simp
  have nn: "0 \<le> walk_param s t k + s" using walk_nonneg [OF assms(1,2)] assms(2) by simp
  have "walk_param s t k + s < 2 ^ 22" using le assms(3,4) by simp
  then have "\<bar>walk_param s t k + s\<bar> < 2 ^ 22" using nn by simp
  then have e: "\<bar>fl (walk_param s t k + s) - (walk_param s t k + s)\<bar> \<le> 1 / 2 ^ 32"
    by (rule fl_err_small)
  have "real (Suc k) * s = real k * s + s" by (simp add: algebra_simps)
  moreover have "real (Suc k) / 2 ^ 32 = real k / 2 ^ 32 + 1 / 2 ^ 32"
    by (simp add: add_divide_distrib)
  ultimately show ?case unfolding walk_param_step using ih e by linarith
qed

lemma walk_advance:
  assumes "0 \<le> t" and "1 / 2 \<le> s" and "s \<le> 2 ^ 20" and "d < 2 ^ 21"
  shows "\<forall>j<k. walk_param s t j \<le> d \<Longrightarrow> t + real k / 4 \<le> walk_param s t k"
proof (induction k)
  case 0
  show ?case by simp
next
  case (Suc k)
  have le: "walk_param s t k \<le> d" using Suc.prems by simp
  have ih: "t + real k / 4 \<le> walk_param s t k" using Suc.IH Suc.prems by simp
  have s0: "0 \<le> s" using assms(2) by simp
  have "walk_param s t k + s < 2 ^ 52" using le assms(3,4) by simp
  from fl_progress [OF walk_nonneg [OF assms(1) s0] assms(2) this]
  have "walk_param s t k + 1 / 4 \<le> walk_param s t (Suc k)" by (simp add: walk_param_step)
  moreover have "real (Suc k) / 4 = real k / 4 + 1 / 4" by (simp add: add_divide_distrib)
  ultimately show ?case using ih by linarith
qed

text \<open>
  One segment of length \<open>d\<close>, walked from the remainder \<open>t\<close> with the step \<open>s\<close>; \<open>n\<close> is
  the number of stamps and \<open>fl (walk_param s t n - d)\<close> the remainder it leaves.
\<close>

lemma segment_numbers:
  assumes t: "0 \<le> t" "t < 2 ^ 21" and s: "1 / 2 \<le> s" "s \<le> 2 ^ 20"
    and d: "0 < d" "d < 2 ^ 21"
    and le: "\<forall>k<n. walk_param s t k \<le> d" and gt: "d < walk_param s t n"
  shows "0 \<le> fl (walk_param s t n - d)"
    and "\<bar>fl (walk_param s t n - d) - (t + real n * s - d)\<bar> \<le> (real n + 1) / 2 ^ 32"
    and "fl (walk_param s t n - d) \<le> max s (t - d) + 2 / 2 ^ 32"
    and "real n \<le> 4 * d + 1"
proof -
  have s0: "0 \<le> s" using s(1) by simp
  have we: "\<bar>walk_param s t n - (t + real n * s)\<bar> \<le> real n / 2 ^ 32"
    by (rule walk_err [OF t(1) s0 s(2) d(2) le])
  have up: "walk_param s t n \<le> max s (t - d) + d + 1 / 2 ^ 32"
  proof (cases n)
    case 0
    then show ?thesis by simp
  next
    case (Suc m)
    have lm: "walk_param s t m \<le> d" using le Suc by simp
    have nn: "0 \<le> walk_param s t m + s" using walk_nonneg [OF t(1) s0] s0 by simp
    have "walk_param s t m + s < 2 ^ 22" using lm s(2) d(2) by simp
    then have "\<bar>walk_param s t m + s\<bar> < 2 ^ 22" using nn by simp
    from fl_err_small [OF this]
    have "walk_param s t (Suc m) \<le> walk_param s t m + s + 1 / 2 ^ 32"
      unfolding walk_param_step by linarith
    then show ?thesis using lm Suc by simp
  qed
  have big: "max s (t - d) + d < 2 ^ 21 + 2 ^ 20"
    using t(2) s(2) d by (simp add: max_def)
  have pos: "0 < walk_param s t n - d" using gt by simp
  have "walk_param s t n - d < 2 ^ 22" using up big d(1) by simp
  then have "\<bar>walk_param s t n - d\<bar> < 2 ^ 22" using pos by simp
  from fl_err_small [OF this]
  have ce: "\<bar>fl (walk_param s t n - d) - (walk_param s t n - d)\<bar> \<le> 1 / 2 ^ 32" .
  show "0 \<le> fl (walk_param s t n - d)" using pos by (intro fl_nonneg) simp
  have "(real n + 1) / 2 ^ 32 = real n / 2 ^ 32 + 1 / 2 ^ 32" by (simp add: add_divide_distrib)
  then show "\<bar>fl (walk_param s t n - d) - (t + real n * s - d)\<bar> \<le> (real n + 1) / 2 ^ 32"
    using we ce by linarith
  show "fl (walk_param s t n - d) \<le> max s (t - d) + 2 / 2 ^ 32"
    using up ce by linarith
  show "real n \<le> 4 * d + 1"
  proof (cases n)
    case 0
    then show ?thesis using d(1) by simp
  next
    case (Suc m)
    have "\<forall>j<m. walk_param s t j \<le> d" using le Suc by simp
    from walk_advance [OF t(1) s d(2) this]
    have "t + real m / 4 \<le> walk_param s t m" .
    moreover have "walk_param s t m \<le> d" using le Suc by simp
    ultimately have "real m / 4 \<le> d" using t(1) by linarith
    then show ?thesis using Suc by simp
  qed
qed

text \<open>
  What one call of \<open>interpolate\<close>, and a sequence of calls along a polyline, does to the
  number of stamps and to the remainder, up to the rounding errors.
\<close>

lemma seg_length_nonneg: "0 \<le> seg_length a b"
  unfolding seg_length_def by (intro fl_nonneg real_sqrt_ge_zero add_nonneg_nonneg) simp_all

lemma path_length_nonneg: "0 \<le> path_length ps"
  by (induction ps rule: path_length.induct) (simp_all add: seg_length_nonneg)

lemma fl_pow20: "fl (2 ^ 20) = 2 ^ 20"
  using fl_of_int [of "2 ^ 20"] by simp

lemma step_of_small:
  assumes "bsize s * spacing s \<le> 2 ^ 20"
  shows "step_of s \<le> 2 ^ 20"
  using fl_upper [OF fl_pow20 assms] by (simp add: step_of_def)

lemma double_pressure_default:
  assumes "double_pressure a"
  shows "0 \<le> pressure_or_default (pressure a)"
    and "fl (pressure_or_default (pressure a)) = pressure_or_default (pressure a)"
  using assms by (auto simp: double_pressure_def pressure_or_default_def split: option.splits)

lemma segment_account:
  assumes "tool s \<noteq> PIXEL" and "0 \<le> hardness s" and "0 \<le> bsize s"
    and "bsize s * spacing s \<le> 2 ^ 20"
    and "double_pressure a" and "double_pressure b"
    and "0 < seg_length a b" and "seg_length a b < 2 ^ 21"
    and "0 \<le> distRemainder st" and "distRemainder st < 2 ^ 21"
    and "canvasRef st = Some cv"
  shows "\<exists>n st' cv'. interpolate s a b st = Normal () st'
     \<and> length (stamps st') = length (stamps st) + n \<and> canvasRef st' = Some cv'
     \<and> 0 \<le> distRemainder st'
     \<and> \<bar>distRemainder st' - (distRemainder st + real n * step_of s - seg_length a b)\<bar>
          \<le> (real n + 1) / 2 ^ 32
     \<and> distRemainder st' \<le> max (step_of s) (distRemainder st - seg_length a b) + 2 / 2 ^ 32
     \<and> real n \<le> 4 * seg_length a b + 1"
proof -
  have b50: "bsize s * spacing s \<le> 2 ^ 50" using assms(4) by simp
  have d51: "seg_length a b < 2 ^ 51" using assms(8) by simp
  from interpolate_run [OF assms(1-3) double_pressure_default [OF assms(5)]
      double_pressure_default(1) [OF assms(6)] assms(7) d51 b50 assms(9,11)]
  obtain n st' cv' where i: "interpolate s a b st = Normal () st'"
    and le: "\<forall>k<n. walk_param (step_of s) (distRemainder st) k \<le> seg_length a b"
    and gt: "seg_length a b < walk_param (step_of s) (distRemainder st) n"
    and st: "stamps st' = stamps st @
        map (\<lambda>k. At (stamp_on a b (walk_param (step_of s) (distRemainder st) k))) [0..<n]"
    and r: "distRemainder st' = fl (walk_param (step_of s) (distRemainder st) n - seg_length a b)"
    and cr: "canvasRef st' = Some cv'"
    by blast
  have len: "length (stamps st') = length (stamps st) + n" unfolding st by simp
  from segment_numbers [OF assms(9,10) step_of_pos(1) step_of_small [OF assms(4)] assms(7,8) le gt]
  show ?thesis
    unfolding r [symmetric] using i len cr by blast
qed

lemma path_account:
  assumes "tool s \<noteq> PIXEL" and "0 \<le> hardness s" and "0 \<le> bsize s"
    and "bsize s * spacing s \<le> 2 ^ 20"
  shows "proper_segments (a # rest) \<Longrightarrow> \<forall>p\<in>set (a # rest). double_pressure p \<Longrightarrow>
     path_length (a # rest) < 2 ^ 21 \<Longrightarrow> 0 \<le> distRemainder st \<Longrightarrow>
     max (step_of s) (distRemainder st) + 2 * real (length rest) / 2 ^ 32 < 2 ^ 21 \<Longrightarrow>
     canvasRef st = Some cv \<Longrightarrow>
     \<exists>m st' cv'. interpolate_path s (a # rest) st = Normal () st'
       \<and> length (stamps st') = length (stamps st) + m \<and> canvasRef st' = Some cv'
       \<and> 0 \<le> distRemainder st'
       \<and> \<bar>distRemainder st' - (distRemainder st + real m * step_of s - path_length (a # rest))\<bar>
            \<le> (real m + real (length rest)) / 2 ^ 32
       \<and> distRemainder st' \<le> max (step_of s) (distRemainder st - path_length (a # rest))
            + 2 * real (length rest) / 2 ^ 32
       \<and> real m \<le> 4 * path_length (a # rest) + real (length rest)"
proof (induction rest arbitrary: a st cv)
  case Nil
  then show ?case by (intro exI [of _ 0] exI [of _ st] exI [of _ cv]) simp
next
  case (Cons b rest)
  define c where "c = distRemainder st"
  define d where "d = seg_length a b"
  define L where "L = path_length (b # rest)"
  define N where "N = real (length rest)"
  define sp where "sp = step_of s"
  have pl: "path_length (a # b # rest) = d + L" by (simp add: d_def L_def)
  have L0: "0 \<le> L" unfolding L_def by (rule path_length_nonneg)
  have d0: "0 < d" using Cons.prems(1) by (simp add: d_def)
  have d21: "d < 2 ^ 21" using Cons.prems(3) L0 unfolding pl by linarith
  have N0: "0 \<le> N" by (simp add: N_def)
  have pre: "max sp c + 2 * (N + 1) / 2 ^ 32 < 2 ^ 21"
    using Cons.prems(5) by (simp add: sp_def c_def N_def add.commute)
  have split: "2 * (N + 1) / 2 ^ 32 = 2 * N / 2 ^ 32 + 2 / (2 ^ 32 :: real)"
    by (simp add: add_divide_distrib algebra_simps)
  have c21: "c < 2 ^ 21" using pre N0 unfolding split by (simp add: max_def split: if_splits)
  have pa: "double_pressure a" and pb: "double_pressure b" using Cons.prems(2) by simp_all
  from segment_account [OF assms pa pb d0 [unfolded d_def] d21 [unfolded d_def]
      Cons.prems(4) c21 [unfolded c_def] Cons.prems(6)]
  obtain n st1 cv1 where i1: "interpolate s a b st = Normal () st1"
    and l1: "length (stamps st1) = length (stamps st) + n"
    and cr1: "canvasRef st1 = Some cv1"
    and c1: "0 \<le> distRemainder st1"
    and e1: "\<bar>distRemainder st1 - (c + real n * sp - d)\<bar> \<le> (real n + 1) / 2 ^ 32"
    and u1: "distRemainder st1 \<le> max sp (c - d) + 2 / 2 ^ 32"
    and n1: "real n \<le> 4 * d + 1"
    unfolding c_def d_def sp_def by blast
  define c' where "c' = distRemainder st1"
  have pr: "proper_segments (b # rest)" using Cons.prems(1) by simp
  have pp: "\<forall>p\<in>set (b # rest). double_pressure p" using Cons.prems(2) by simp
  have L21: "path_length (b # rest) < 2 ^ 21" using Cons.prems(3) d0 unfolding pl L_def by linarith
  have "max sp c' \<le> max sp c + 2 / 2 ^ 32"
    using u1 d0 unfolding c'_def by (simp add: max_def split: if_splits)
  then have "max sp c' + 2 * N / 2 ^ 32 < 2 ^ 21"
    using pre unfolding split by linarith
  then have pre1: "max (step_of s) (distRemainder st1) + 2 * real (length rest) / 2 ^ 32 < 2 ^ 21"
    unfolding sp_def c'_def N_def .
  from Cons.IH [OF pr pp L21 c1 pre1 cr1]
  obtain m st2 cv2 where i2: "interpolate_path s (b # rest) st1 = Normal () st2"
    and l2: "length (stamps st2) = length (stamps st1) + m"
    and cr2: "canvasRef st2 = Some cv2"
    and c2: "0 \<le> distRemainder st2"
    and e2: "\<bar>distRemainder st2 - (c' + real m * sp - L)\<bar> \<le> (real m + N) / 2 ^ 32"
    and u2: "distRemainder st2 \<le> max sp (c' - L) + 2 * N / 2 ^ 32"
    and n2: "real m \<le> 4 * L + N"
    unfolding c'_def L_def sp_def N_def by blast
  have r1: "interpolate_path s (a # b # rest) st = Normal () st2" by (simp add: i1 i2)
  have r2: "length (stamps st2) = length (stamps st) + (n + m)" using l1 l2 by simp
  have mul: "real (n + m) * sp = real n * sp + real m * sp" by (simp add: algebra_simps)
  have dv: "(real (n + m) + (N + 1)) / 2 ^ 32 = (real n + 1) / 2 ^ 32 + (real m + N) / 2 ^ 32"
    by (simp add: add_divide_distrib)
  have r3: "\<bar>distRemainder st2 - (c + real (n + m) * sp - (d + L))\<bar>
      \<le> (real (n + m) + (N + 1)) / 2 ^ 32"
    unfolding mul dv using e1 e2 unfolding c'_def by linarith
  have "max sp (c' - L) \<le> max sp (c - (d + L)) + 2 / 2 ^ 32"
    using u1 L0 d0 unfolding c'_def by (simp add: max_def split: if_splits)
  then have r4: "distRemainder st2 \<le> max sp (c - (d + L)) + 2 * (N + 1) / 2 ^ 32"
    using u2 unfolding split by linarith
  have r5: "real (n + m) \<le> 4 * (d + L) + (N + 1)" using n1 n2 by simp
  have len: "real (length (b # rest)) = N + 1" by (simp add: N_def)
  show ?case
    unfolding pl len c_def [symmetric] sp_def [symmetric]
    using r1 r2 cr2 c2 r3 r4 r5
    by (intro exI [of _ "n + m"] exI [of _ st2] exI [of _ cv2]) simp
qed

lemma count_gap:
  fixes c c1 c2 sp L D tol N M1 M2 :: real
  assumes A1: "\<bar>c1 - (c + M1 * sp - L)\<bar> \<le> (M1 + N) / 2 ^ 32"
    and A2: "\<bar>c2 - (c + M2 * sp - D)\<bar> \<le> (M2 + K) / 2 ^ 32"
    and B2: "0 \<le> c2"
    and U1: "c1 \<le> max sp (c - L) + 2 * N / 2 ^ 32"
    and K1: "M1 \<le> 4 * L + N" and K2: "M2 \<le> 4 * D + K"
    and T: "\<bar>L - D\<bar> \<le> tol" "tol \<le> 1 / 8"
    and R: "L < 2 ^ 21" "D < 2 ^ 21" "0 \<le> N" "N \<le> 2 ^ 20" "0 \<le> K" "K \<le> 2 ^ 20" "1 / 2 \<le> sp"
    and M: "0 \<le> M2" "M2 + 2 \<le> M1"
  shows False
proof -
  have "(M2 + 2) * sp \<le> M1 * sp" using M(2) R(7) by (intro mult_right_mono) simp_all
  then have p1: "M2 * sp + 2 * sp \<le> M1 * sp" by (simp add: algebra_simps)
  have "M1 * (1 / 2) \<le> M1 * sp" using M R(7) by (intro mult_left_mono) simp_all
  then have p2: "M1 / 2 \<le> M1 * sp" by simp
  have e1: "(M1 + N) / 2 ^ 32 \<le> 1 / 256"
  proof -
    have "M1 + N \<le> 2 ^ 24" using K1 R(1,4) by simp
    then have "(M1 + N) / 2 ^ 32 \<le> 2 ^ 24 / 2 ^ 32" by (rule divide_right_mono) simp
    then show ?thesis by simp
  qed
  have e2: "(M2 + K) / 2 ^ 32 \<le> 1 / 256"
  proof -
    have "M2 + K \<le> 2 ^ 24" using K2 R(2,6) by simp
    then have "(M2 + K) / 2 ^ 32 \<le> 2 ^ 24 / 2 ^ 32" by (rule divide_right_mono) simp
    then show ?thesis by simp
  qed
  have e3: "2 * N / 2 ^ 32 \<le> 1 / 256"
  proof -
    have "2 * N \<le> 2 ^ 24" using R(4) by simp
    then have "2 * N / 2 ^ 32 \<le> 2 ^ 24 / 2 ^ 32" by (rule divide_right_mono) simp
    then show ?thesis by simp
  qed
  show False
  proof (cases "c - L \<le> sp")
    case True
    then have "c1 \<le> sp + 2 * N / 2 ^ 32" using U1 by (simp add: max_def)
    then show False using A1 A2 B2 p1 e1 e2 e3 T R(7) by linarith
  next
    case False
    then have "c1 \<le> c - L + 2 * N / 2 ^ 32" using U1 by (simp add: max_def)
    moreover have "2 \<le> M1" using M by linarith
    ultimately show False using A1 p2 e1 e3 by linarith
  qed
qed

section \<open>Concrete runs\<close>

lemma first_above_unique:
  fixes d :: real and n m :: nat
  assumes "\<forall>k<n. f k \<le> d" and "d < f n" and "\<forall>k<m. f k \<le> d" and "d < f m"
  shows "n = m"
proof (rule ccontr)
  assume "n \<noteq> m"
  then consider "n < m" | "m < n" by linarith
  then show False
  proof cases
    case 1 then show False using assms(2,3) by (auto simp: not_less [symmetric])
  next
    case 2 then show False using assms(1,4) by (auto simp: not_less [symmetric])
  qed
qed

lemma walk_unit: "k \<le> 2 ^ 52 \<Longrightarrow> walk_param 1 0 k = real k"
proof (induction k)
  case 0
  show ?case by simp
next
  case (Suc k)
  have "\<bar>int k + 1\<bar> < 2 ^ 53" using Suc.prems by simp
  then have "fl (of_int (int k + 1)) = of_int (int k + 1)" by (rule fl_of_int)
  then have "fl (real k + 1) = real k + 1" by simp
  then show ?case using Suc by (simp add: walk_param_step)
qed

lemma sqrt_16: "sqrt 16 = 4"
  by (rule real_sqrt_unique) simp_all

lemma sqrt_36: "sqrt 36 = 6"
  by (rule real_sqrt_unique) simp_all

lemma sqrt_4: "sqrt 4 = 2"
  by (rule real_sqrt_unique) simp_all

lemma fl_quarter: "fl (1 / 4) = 1 / 4"
  by (subst fl_eval_nat [where a = 0 and b = 2]) (simp_all add: round_half_even_def)

lemma fl_three_quarters: "fl (3 / 4) = 3 / 4"
  by (subst fl_eval_nat [where a = 0 and b = 1]) (simp_all add: round_half_even_def)

lemma fl_fifth: "fl (1 / 5) = 3602879701896397 / 2 ^ 54"
  by (subst fl_eval_nat [where a = 0 and b = 3]) (simp_all add: round_half_even_def)

lemma fl_fine_step: "fl (3 * (3602879701896397 / 2 ^ 54)) = 1351079888211149 / 2 ^ 51"
  by (subst fl_eval_nat [where a = 0 and b = 1]) (simp_all add: round_half_even_def)

lemma fine_settings_fields:
  "tool fine_settings \<noteq> PIXEL" "0 \<le> hardness fine_settings" "0 \<le> bsize fine_settings"
  "bsize fine_settings = 3" "spacing fine_settings = fl (1 / 5)"
  by (simp_all add: fine_settings_def initial_settings_def)

lemma step_of_fine: "step_of fine_settings = 1351079888211149 / 2 ^ 51"
proof -
  have "step_of fine_settings = max (1 / 2) (fl (3 * fl (1 / 5)))"
    by (simp only: step_of_def fine_settings_fields)
  also have "\<dots> = max (1 / 2) (fl (3 * (3602879701896397 / 2 ^ 54)))"
    by (simp only: fl_fifth)
  also have "\<dots> = max (1 / 2) (1351079888211149 / 2 ^ 51)"
    by (simp only: fl_fine_step)
  also have "\<dots> = 1351079888211149 / 2 ^ 51" by simp
  finally show ?thesis .
qed

lemma fine_product_bound: "bsize fine_settings * spacing fine_settings \<le> 2 ^ 50"
  by (simp add: fine_settings_fields fl_fifth)

lemma seg_length_horizontal:
  "seg_length (mouse_pt 0 0) (mouse_pt 6 0) = 6"
  "seg_length (mouse_pt 0 0) (mouse_pt 2 0) = 2"
  "seg_length (mouse_pt 2 0) (mouse_pt 6 0) = 4"
  "seg_length (mouse_pt 0 0) (mouse_pt 4 0) = 4"
  "seg_length (mouse_pt 0 0) (mouse_pt 5 0) = 5"
  by (simp_all add: seg_length_def mouse_pt_def sqrt_36 sqrt_4 sqrt_16 sqrt_25)

lemma blank_canvas: "canvasRef blank \<noteq> None" "distRemainder blank = 0" "stamps blank = []"
  by (simp_all add: blank_def mounted_def)

lemma initial_settings_brush:
  "tool initial_settings \<noteq> PIXEL" "0 \<le> hardness initial_settings" "0 \<le> bsize initial_settings"
  by (simp_all add: initial_settings_def)

lemma mouse_pt_pressure:
  "0 \<le> pressure_or_default (pressure (mouse_pt vx vy))"
  "fl (pressure_or_default (pressure (mouse_pt vx vy))) = pressure_or_default (pressure (mouse_pt vx vy))"
  "pressure (mouse_pt vx vy) = Some (1 / 2)"
  by (simp_all add: mouse_pt_def pressure_or_default_def)

lemma mouse_pt_fields:
  "px (mouse_pt vx vy) = vx" "py (mouse_pt vx vy) = vy" "pressure (mouse_pt vx vy) = Some (1 / 2)"
  by (simp_all add: mouse_pt_def)

lemma blank_canvas_value:
  "canvasRef blank = Some \<lparr>rect_left = 0, rect_top = 0, width = 200, height = 50,
        ctx = \<lparr>fillStyle = Solid beige, globalAlpha = 1, path = [], bitmap = (\<lambda>q. beige)\<rparr>\<rparr>"
  by (simp add: blank_def mounted_def)

text \<open>
  The spacing of the initial settings is 0.1. With the double nearest to 0.1 in its
  place the step of \<open>interpolate\<close> is the same, 1: the product \<open>10 * 0.1\<close> rounds to 1.
\<close>

lemma fl_tenth: "fl (1 / 10) = 3602879701896397 / 2 ^ 55"
  by (subst fl_eval_nat [where a = 0 and b = 4]) (simp_all add: round_half_even_def)

lemma fl_ten_tenths: "fl (10 * (3602879701896397 / 2 ^ 55)) = 1"
  by (subst fl_eval_nat [where a = 0 and b = 0]) (simp_all add: round_half_even_def)

lemma step_of_initial_settings:
  "step_of initial_settings = 1"
  "step_of (initial_settings\<lparr>spacing := fl (1 / 10)\<rparr>) = 1"
proof -
  show "step_of initial_settings = 1" by (simp add: step_of_def initial_settings_def)
  have "step_of (initial_settings\<lparr>spacing := fl (1 / 10)\<rparr>) = max (1 / 2) (fl (10 * fl (1 / 10)))"
    by (simp add: step_of_def initial_settings_def)
  also have "\<dots> = max (1 / 2) (fl (10 * (3602879701896397 / 2 ^ 55)))"
    by (simp only: fl_tenth)
  also have "\<dots> = max (1 / 2) 1" by (simp only: fl_ten_tenths)
  finally show "step_of (initial_settings\<lparr>spacing := fl (1 / 10)\<rparr>) = 1" by simp
qed

text \<open>
  The walk over a segment of length 6 from remainder 0 with size 3 and spacing 0.2: the
  rounded sums, one lemma each.
\<close>

lemma fine_sum_1: "fl (0 + 1351079888211149 / 2 ^ 51) = 1351079888211149 / 2 ^ 51"
  by (subst fl_eval_nat [where a = 0 and b = 1]) (simp_all add: round_half_even_def)

lemma fine_sum_2: "fl (1351079888211149 / 2 ^ 51 + 1351079888211149 / 2 ^ 51) = 1351079888211149 / 2 ^ 50"
  by (subst fl_eval_nat [where a = 0 and b = 0]) (simp_all add: round_half_even_def)

lemma fine_sum_3: "fl (1351079888211149 / 2 ^ 50 + 1351079888211149 / 2 ^ 51) = 4053239664633447 / 2 ^ 51"
  by (subst fl_eval_nat [where a = 0 and b = 0]) (simp_all add: round_half_even_def)

lemma fine_sum_4: "fl (4053239664633447 / 2 ^ 51 + 1351079888211149 / 2 ^ 51) = 1351079888211149 / 2 ^ 49"
  by (subst fl_eval_nat [where a = 1 and b = 0]) (simp_all add: round_half_even_def)

lemma fine_sum_5: "fl (1351079888211149 / 2 ^ 49 + 1351079888211149 / 2 ^ 51) = 6755399441055745 / 2 ^ 51"
  by (subst fl_eval_nat [where a = 1 and b = 0]) (simp_all add: round_half_even_def)

lemma fine_sum_6: "fl (6755399441055745 / 2 ^ 51 + 1351079888211149 / 2 ^ 51) = 4053239664633447 / 2 ^ 50"
  by (subst fl_eval_nat [where a = 1 and b = 0]) (simp_all add: round_half_even_def)

lemma fine_sum_7: "fl (4053239664633447 / 2 ^ 50 + 1351079888211149 / 2 ^ 51) = 2364389804369511 / 2 ^ 49"
  by (subst fl_eval_nat [where a = 2 and b = 0]) (simp_all add: round_half_even_def)

lemma fine_sum_8: "fl (2364389804369511 / 2 ^ 49 + 1351079888211149 / 2 ^ 51) = 1351079888211149 / 2 ^ 48"
  by (subst fl_eval_nat [where a = 2 and b = 0]) (simp_all add: round_half_even_def)

lemma fine_sum_9: "fl (1351079888211149 / 2 ^ 48 + 1351079888211149 / 2 ^ 51) = 3039929748475085 / 2 ^ 49"
  by (subst fl_eval_nat [where a = 2 and b = 0]) (simp_all add: round_half_even_def)

lemma fine_sum_10: "fl (3039929748475085 / 2 ^ 49 + 1351079888211149 / 2 ^ 51) = 6"
  by (subst fl_eval_nat [where a = 2 and b = 0]) (simp_all add: round_half_even_def)

lemma fine_sum_11: "fl (6 + 1351079888211149 / 2 ^ 51) = 3715469692580659 / 2 ^ 49"
  by (subst fl_eval_nat [where a = 2 and b = 0]) (simp_all add: round_half_even_def)

lemma fine_walk_0: "walk_param (1351079888211149 / 2 ^ 51) (0) 0 = 0"
  by simp

lemma fine_walk_1: "walk_param (1351079888211149 / 2 ^ 51) (0) 1 = 1351079888211149 / 2 ^ 51"
proof -
  have "walk_param (1351079888211149 / 2 ^ 51) (0) 1 = walk_param (1351079888211149 / 2 ^ 51) (0) (Suc 0)" by (simp add: eval_nat_numeral)
  also have "\<dots> = fl (walk_param (1351079888211149 / 2 ^ 51) (0) 0 + 1351079888211149 / 2 ^ 51)" by (rule walk_param_step)
  also have "\<dots> = fl (0 + 1351079888211149 / 2 ^ 51)" by (simp only: fine_walk_0)
  also have "\<dots> = 1351079888211149 / 2 ^ 51" by (rule fine_sum_1)
  finally show ?thesis .
qed

lemma fine_walk_2: "walk_param (1351079888211149 / 2 ^ 51) (0) 2 = 1351079888211149 / 2 ^ 50"
proof -
  have "walk_param (1351079888211149 / 2 ^ 51) (0) 2 = walk_param (1351079888211149 / 2 ^ 51) (0) (Suc 1)" by (simp add: eval_nat_numeral)
  also have "\<dots> = fl (walk_param (1351079888211149 / 2 ^ 51) (0) 1 + 1351079888211149 / 2 ^ 51)" by (rule walk_param_step)
  also have "\<dots> = fl (1351079888211149 / 2 ^ 51 + 1351079888211149 / 2 ^ 51)" by (simp only: fine_walk_1)
  also have "\<dots> = 1351079888211149 / 2 ^ 50" by (rule fine_sum_2)
  finally show ?thesis .
qed

lemma fine_walk_3: "walk_param (1351079888211149 / 2 ^ 51) (0) 3 = 4053239664633447 / 2 ^ 51"
proof -
  have "walk_param (1351079888211149 / 2 ^ 51) (0) 3 = walk_param (1351079888211149 / 2 ^ 51) (0) (Suc 2)" by (simp add: eval_nat_numeral)
  also have "\<dots> = fl (walk_param (1351079888211149 / 2 ^ 51) (0) 2 + 1351079888211149 / 2 ^ 51)" by (rule walk_param_step)
  also have "\<dots> = fl (1351079888211149 / 2 ^ 50 + 1351079888211149 / 2 ^ 51)" by (simp only: fine_walk_2)
  also have "\<dots> = 4053239664633447 / 2 ^ 51" by (rule fine_sum_3)
  finally show ?thesis .
qed

lemma fine_walk_4: "walk_param (1351079888211149 / 2 ^ 51) (0) 4 = 1351079888211149 / 2 ^ 49"
proof -
  have "walk_param (1351079888211149 / 2 ^ 51) (0) 4 = walk_param (1351079888211149 / 2 ^ 51) (0) (Suc 3)" by (simp add: eval_nat_numeral)
  also have "\<dots> = fl (walk_param (1351079888211149 / 2 ^ 51) (0) 3 + 1351079888211149 / 2 ^ 51)" by (rule walk_param_step)
  also have "\<dots> = fl (4053239664633447 / 2 ^ 51 + 1351079888211149 / 2 ^ 51)" by (simp only: fine_walk_3)
  also have "\<dots> = 1351079888211149 / 2 ^ 49" by (rule fine_sum_4)
  finally show ?thesis .
qed

lemma fine_walk_5: "walk_param (1351079888211149 / 2 ^ 51) (0) 5 = 6755399441055745 / 2 ^ 51"
proof -
  have "walk_param (1351079888211149 / 2 ^ 51) (0) 5 = walk_param (1351079888211149 / 2 ^ 51) (0) (Suc 4)" by (simp add: eval_nat_numeral)
  also have "\<dots> = fl (walk_param (1351079888211149 / 2 ^ 51) (0) 4 + 1351079888211149 / 2 ^ 51)" by (rule walk_param_step)
  also have "\<dots> = fl (1351079888211149 / 2 ^ 49 + 1351079888211149 / 2 ^ 51)" by (simp only: fine_walk_4)
  also have "\<dots> = 6755399441055745 / 2 ^ 51" by (rule fine_sum_5)
  finally show ?thesis .
qed

lemma fine_walk_6: "walk_param (1351079888211149 / 2 ^ 51) (0) 6 = 4053239664633447 / 2 ^ 50"
proof -
  have "walk_param (1351079888211149 / 2 ^ 51) (0) 6 = walk_param (1351079888211149 / 2 ^ 51) (0) (Suc 5)" by (simp add: eval_nat_numeral)
  also have "\<dots> = fl (walk_param (1351079888211149 / 2 ^ 51) (0) 5 + 1351079888211149 / 2 ^ 51)" by (rule walk_param_step)
  also have "\<dots> = fl (6755399441055745 / 2 ^ 51 + 1351079888211149 / 2 ^ 51)" by (simp only: fine_walk_5)
  also have "\<dots> = 4053239664633447 / 2 ^ 50" by (rule fine_sum_6)
  finally show ?thesis .
qed

lemma fine_walk_7: "walk_param (1351079888211149 / 2 ^ 51) (0) 7 = 2364389804369511 / 2 ^ 49"
proof -
  have "walk_param (1351079888211149 / 2 ^ 51) (0) 7 = walk_param (1351079888211149 / 2 ^ 51) (0) (Suc 6)" by (simp add: eval_nat_numeral)
  also have "\<dots> = fl (walk_param (1351079888211149 / 2 ^ 51) (0) 6 + 1351079888211149 / 2 ^ 51)" by (rule walk_param_step)
  also have "\<dots> = fl (4053239664633447 / 2 ^ 50 + 1351079888211149 / 2 ^ 51)" by (simp only: fine_walk_6)
  also have "\<dots> = 2364389804369511 / 2 ^ 49" by (rule fine_sum_7)
  finally show ?thesis .
qed

lemma fine_walk_8: "walk_param (1351079888211149 / 2 ^ 51) (0) 8 = 1351079888211149 / 2 ^ 48"
proof -
  have "walk_param (1351079888211149 / 2 ^ 51) (0) 8 = walk_param (1351079888211149 / 2 ^ 51) (0) (Suc 7)" by (simp add: eval_nat_numeral)
  also have "\<dots> = fl (walk_param (1351079888211149 / 2 ^ 51) (0) 7 + 1351079888211149 / 2 ^ 51)" by (rule walk_param_step)
  also have "\<dots> = fl (2364389804369511 / 2 ^ 49 + 1351079888211149 / 2 ^ 51)" by (simp only: fine_walk_7)
  also have "\<dots> = 1351079888211149 / 2 ^ 48" by (rule fine_sum_8)
  finally show ?thesis .
qed

lemma fine_walk_9: "walk_param (1351079888211149 / 2 ^ 51) (0) 9 = 3039929748475085 / 2 ^ 49"
proof -
  have "walk_param (1351079888211149 / 2 ^ 51) (0) 9 = walk_param (1351079888211149 / 2 ^ 51) (0) (Suc 8)" by (simp add: eval_nat_numeral)
  also have "\<dots> = fl (walk_param (1351079888211149 / 2 ^ 51) (0) 8 + 1351079888211149 / 2 ^ 51)" by (rule walk_param_step)
  also have "\<dots> = fl (1351079888211149 / 2 ^ 48 + 1351079888211149 / 2 ^ 51)" by (simp only: fine_walk_8)
  also have "\<dots> = 3039929748475085 / 2 ^ 49" by (rule fine_sum_9)
  finally show ?thesis .
qed

lemma fine_walk_10: "walk_param (1351079888211149 / 2 ^ 51) (0) 10 = 6"
proof -
  have "walk_param (1351079888211149 / 2 ^ 51) (0) 10 = walk_param (1351079888211149 / 2 ^ 51) (0) (Suc 9)" by (simp add: eval_nat_numeral)
  also have "\<dots> = fl (walk_param (1351079888211149 / 2 ^ 51) (0) 9 + 1351079888211149 / 2 ^ 51)" by (rule walk_param_step)
  also have "\<dots> = fl (3039929748475085 / 2 ^ 49 + 1351079888211149 / 2 ^ 51)" by (simp only: fine_walk_9)
  also have "\<dots> = 6" by (rule fine_sum_10)
  finally show ?thesis .
qed

lemma fine_walk_11: "walk_param (1351079888211149 / 2 ^ 51) (0) 11 = 3715469692580659 / 2 ^ 49"
proof -
  have "walk_param (1351079888211149 / 2 ^ 51) (0) 11 = walk_param (1351079888211149 / 2 ^ 51) (0) (Suc 10)" by (simp add: eval_nat_numeral)
  also have "\<dots> = fl (walk_param (1351079888211149 / 2 ^ 51) (0) 10 + 1351079888211149 / 2 ^ 51)" by (rule walk_param_step)
  also have "\<dots> = fl (6 + 1351079888211149 / 2 ^ 51)" by (simp only: fine_walk_10)
  also have "\<dots> = 3715469692580659 / 2 ^ 49" by (rule fine_sum_11)
  finally show ?thesis .
qed

lemma whole_below: "\<forall>k<11. walk_param (1351079888211149 / 2 ^ 51) (0) k \<le> 6"
proof -
  have "\<forall>k\<in>set [0, 1, 2, 3, 4, 5, 6, 7, 8, 9, 10::nat]. walk_param (1351079888211149 / 2 ^ 51) (0) k \<le> 6"
    unfolding list.set ball_simps fine_walk_0 fine_walk_1 fine_walk_2 fine_walk_3 fine_walk_4 fine_walk_5 fine_walk_6 fine_walk_7 fine_walk_8 fine_walk_9 fine_walk_10
    by simp
  moreover have "[0..<11] = [0, 1, 2, 3, 4, 5, 6, 7, 8, 9, 10::nat]" by code_simp
  ultimately have "\<forall>k\<in>set [0..<11]. walk_param (1351079888211149 / 2 ^ 51) (0) k \<le> 6" by (simp only:)
  then show ?thesis by simp
qed

lemma whole_above: "6 < walk_param (1351079888211149 / 2 ^ 51) (0) 11"
  unfolding fine_walk_11 by simp

lemma whole_carry: "fl (3715469692580659 / 2 ^ 49 - 6) = 337769972052787 / 2 ^ 49"
  by (subst fl_eval_nat [where a = 0 and b = 1]) (simp_all add: round_half_even_def)

lemma whole_run:
  "\<exists>st'. interpolate fine_settings (mouse_pt 0 0) (mouse_pt 6 0) blank = Normal () st'
      \<and> stamps st' = map (\<lambda>k. At (stamp_on (mouse_pt 0 0) (mouse_pt 6 0)
                                   (walk_param (1351079888211149 / 2 ^ 51) 0 k))) [0..<11]
      \<and> distRemainder st' = 337769972052787 / 2 ^ 49
      \<and> canvasRef st' \<noteq> None"
proof -
  obtain cv where cv: "canvasRef blank = Some cv" using blank_canvas(1) by blast
  have pos: "0 < seg_length (mouse_pt 0 0) (mouse_pt 6 0)"
    and bd: "seg_length (mouse_pt 0 0) (mouse_pt 6 0) < 2 ^ 51"
    by (simp_all add: seg_length_horizontal)
  have c: "0 \<le> distRemainder blank" by (simp add: blank_canvas)
  from interpolate_run [OF fine_settings_fields(1-3) mouse_pt_pressure(1,2) mouse_pt_pressure(1)
      pos bd fine_product_bound c cv]
  obtain n st' cv' where
    i: "interpolate fine_settings (mouse_pt 0 0) (mouse_pt 6 0) blank = Normal () st'"
    and le: "\<forall>k<n. walk_param (1351079888211149 / 2 ^ 51) 0 k \<le> 6"
    and gt: "6 < walk_param (1351079888211149 / 2 ^ 51) 0 n"
    and s: "stamps st' = map (\<lambda>k. At (stamp_on (mouse_pt 0 0) (mouse_pt 6 0)
                                   (walk_param (1351079888211149 / 2 ^ 51) 0 k))) [0..<n]"
    and r: "distRemainder st' = fl (walk_param (1351079888211149 / 2 ^ 51) 0 n - 6)"
    and cr: "canvasRef st' = Some cv'"
    unfolding step_of_fine seg_length_horizontal blank_canvas by auto
  have n: "n = 11"
    by (rule first_above_unique [OF le gt whole_below whole_above])
  have "distRemainder st' = 337769972052787 / 2 ^ 49"
    unfolding r n fine_walk_11 by (rule whole_carry)
  then show ?thesis using i s cr by (auto simp: n)
qed

lemma stamp_on_end:
  "stamp_on (mouse_pt 0 0) (mouse_pt 6 0) 6 = \<lparr>px = 6, py = 0, pressure = Some (1 / 2), tilt = None\<rparr>"
  by (simp add: stamp_on_def seg_length_horizontal mouse_pt_fields pressure_or_default_def)

text \<open>
  The same segment in two moves, from \<open>(0, 0)\<close> to \<open>(2, 0)\<close> and on to \<open>(6, 0)\<close>: the second
  walk resumes from the remainder of the first.
\<close>

lemma first_below: "\<forall>k<4. walk_param (1351079888211149 / 2 ^ 51) (0) k \<le> 2"
proof -
  have "\<forall>k\<in>set [0, 1, 2, 3::nat]. walk_param (1351079888211149 / 2 ^ 51) (0) k \<le> 2"
    unfolding list.set ball_simps fine_walk_0 fine_walk_1 fine_walk_2 fine_walk_3
    by simp
  moreover have "[0..<4] = [0, 1, 2, 3::nat]" by code_simp
  ultimately have "\<forall>k\<in>set [0..<4]. walk_param (1351079888211149 / 2 ^ 51) (0) k \<le> 2" by (simp only:)
  then show ?thesis by simp
qed

lemma first_above: "2 < walk_param (1351079888211149 / 2 ^ 51) (0) 4"
  unfolding fine_walk_4 by simp

lemma first_carry: "fl (1351079888211149 / 2 ^ 49 - 2) = 225179981368525 / 2 ^ 49"
  by (subst fl_eval_nat [where a = 0 and b = 2]) (simp_all add: round_half_even_def)

lemma resumed_sum_1: "fl (225179981368525 / 2 ^ 49 + 1351079888211149 / 2 ^ 51) = 2251799813685249 / 2 ^ 51"
  by (subst fl_eval_nat [where a = 0 and b = 0]) (simp_all add: round_half_even_def)

lemma resumed_sum_2: "fl (2251799813685249 / 2 ^ 51 + 1351079888211149 / 2 ^ 51) = 1801439850948199 / 2 ^ 50"
  by (subst fl_eval_nat [where a = 0 and b = 0]) (simp_all add: round_half_even_def)

lemma resumed_sum_3: "fl (1801439850948199 / 2 ^ 50 + 1351079888211149 / 2 ^ 51) = 4953959590107547 / 2 ^ 51"
  by (subst fl_eval_nat [where a = 1 and b = 0]) (simp_all add: round_half_even_def)

lemma resumed_sum_4: "fl (4953959590107547 / 2 ^ 51 + 1351079888211149 / 2 ^ 51) = 788129934789837 / 2 ^ 48"
  by (subst fl_eval_nat [where a = 1 and b = 0]) (simp_all add: round_half_even_def)

lemma resumed_sum_5: "fl (788129934789837 / 2 ^ 48 + 1351079888211149 / 2 ^ 51) = 7656119366529845 / 2 ^ 51"
  by (subst fl_eval_nat [where a = 1 and b = 0]) (simp_all add: round_half_even_def)

lemma resumed_sum_6: "fl (7656119366529845 / 2 ^ 51 + 1351079888211149 / 2 ^ 51) = 4503599627370497 / 2 ^ 50"
  by (subst fl_eval_nat [where a = 2 and b = 0]) (simp_all add: round_half_even_def)

lemma resumed_walk_0: "walk_param (1351079888211149 / 2 ^ 51) (225179981368525 / 2 ^ 49) 0 = 225179981368525 / 2 ^ 49"
  by simp

lemma resumed_walk_1: "walk_param (1351079888211149 / 2 ^ 51) (225179981368525 / 2 ^ 49) 1 = 2251799813685249 / 2 ^ 51"
proof -
  have "walk_param (1351079888211149 / 2 ^ 51) (225179981368525 / 2 ^ 49) 1 = walk_param (1351079888211149 / 2 ^ 51) (225179981368525 / 2 ^ 49) (Suc 0)" by (simp add: eval_nat_numeral)
  also have "\<dots> = fl (walk_param (1351079888211149 / 2 ^ 51) (225179981368525 / 2 ^ 49) 0 + 1351079888211149 / 2 ^ 51)" by (rule walk_param_step)
  also have "\<dots> = fl (225179981368525 / 2 ^ 49 + 1351079888211149 / 2 ^ 51)" by (simp only: resumed_walk_0)
  also have "\<dots> = 2251799813685249 / 2 ^ 51" by (rule resumed_sum_1)
  finally show ?thesis .
qed

lemma resumed_walk_2: "walk_param (1351079888211149 / 2 ^ 51) (225179981368525 / 2 ^ 49) 2 = 1801439850948199 / 2 ^ 50"
proof -
  have "walk_param (1351079888211149 / 2 ^ 51) (225179981368525 / 2 ^ 49) 2 = walk_param (1351079888211149 / 2 ^ 51) (225179981368525 / 2 ^ 49) (Suc 1)" by (simp add: eval_nat_numeral)
  also have "\<dots> = fl (walk_param (1351079888211149 / 2 ^ 51) (225179981368525 / 2 ^ 49) 1 + 1351079888211149 / 2 ^ 51)" by (rule walk_param_step)
  also have "\<dots> = fl (2251799813685249 / 2 ^ 51 + 1351079888211149 / 2 ^ 51)" by (simp only: resumed_walk_1)
  also have "\<dots> = 1801439850948199 / 2 ^ 50" by (rule resumed_sum_2)
  finally show ?thesis .
qed

lemma resumed_walk_3: "walk_param (1351079888211149 / 2 ^ 51) (225179981368525 / 2 ^ 49) 3 = 4953959590107547 / 2 ^ 51"
proof -
  have "walk_param (1351079888211149 / 2 ^ 51) (225179981368525 / 2 ^ 49) 3 = walk_param (1351079888211149 / 2 ^ 51) (225179981368525 / 2 ^ 49) (Suc 2)" by (simp add: eval_nat_numeral)
  also have "\<dots> = fl (walk_param (1351079888211149 / 2 ^ 51) (225179981368525 / 2 ^ 49) 2 + 1351079888211149 / 2 ^ 51)" by (rule walk_param_step)
  also have "\<dots> = fl (1801439850948199 / 2 ^ 50 + 1351079888211149 / 2 ^ 51)" by (simp only: resumed_walk_2)
  also have "\<dots> = 4953959590107547 / 2 ^ 51" by (rule resumed_sum_3)
  finally show ?thesis .
qed

lemma resumed_walk_4: "walk_param (1351079888211149 / 2 ^ 51) (225179981368525 / 2 ^ 49) 4 = 788129934789837 / 2 ^ 48"
proof -
  have "walk_param (1351079888211149 / 2 ^ 51) (225179981368525 / 2 ^ 49) 4 = walk_param (1351079888211149 / 2 ^ 51) (225179981368525 / 2 ^ 49) (Suc 3)" by (simp add: eval_nat_numeral)
  also have "\<dots> = fl (walk_param (1351079888211149 / 2 ^ 51) (225179981368525 / 2 ^ 49) 3 + 1351079888211149 / 2 ^ 51)" by (rule walk_param_step)
  also have "\<dots> = fl (4953959590107547 / 2 ^ 51 + 1351079888211149 / 2 ^ 51)" by (simp only: resumed_walk_3)
  also have "\<dots> = 788129934789837 / 2 ^ 48" by (rule resumed_sum_4)
  finally show ?thesis .
qed

lemma resumed_walk_5: "walk_param (1351079888211149 / 2 ^ 51) (225179981368525 / 2 ^ 49) 5 = 7656119366529845 / 2 ^ 51"
proof -
  have "walk_param (1351079888211149 / 2 ^ 51) (225179981368525 / 2 ^ 49) 5 = walk_param (1351079888211149 / 2 ^ 51) (225179981368525 / 2 ^ 49) (Suc 4)" by (simp add: eval_nat_numeral)
  also have "\<dots> = fl (walk_param (1351079888211149 / 2 ^ 51) (225179981368525 / 2 ^ 49) 4 + 1351079888211149 / 2 ^ 51)" by (rule walk_param_step)
  also have "\<dots> = fl (788129934789837 / 2 ^ 48 + 1351079888211149 / 2 ^ 51)" by (simp only: resumed_walk_4)
  also have "\<dots> = 7656119366529845 / 2 ^ 51" by (rule resumed_sum_5)
  finally show ?thesis .
qed

lemma resumed_walk_6: "walk_param (1351079888211149 / 2 ^ 51) (225179981368525 / 2 ^ 49) 6 = 4503599627370497 / 2 ^ 50"
proof -
  have "walk_param (1351079888211149 / 2 ^ 51) (225179981368525 / 2 ^ 49) 6 = walk_param (1351079888211149 / 2 ^ 51) (225179981368525 / 2 ^ 49) (Suc 5)" by (simp add: eval_nat_numeral)
  also have "\<dots> = fl (walk_param (1351079888211149 / 2 ^ 51) (225179981368525 / 2 ^ 49) 5 + 1351079888211149 / 2 ^ 51)" by (rule walk_param_step)
  also have "\<dots> = fl (7656119366529845 / 2 ^ 51 + 1351079888211149 / 2 ^ 51)" by (simp only: resumed_walk_5)
  also have "\<dots> = 4503599627370497 / 2 ^ 50" by (rule resumed_sum_6)
  finally show ?thesis .
qed

lemma second_below: "\<forall>k<6. walk_param (1351079888211149 / 2 ^ 51) (225179981368525 / 2 ^ 49) k \<le> 4"
proof -
  have "\<forall>k\<in>set [0, 1, 2, 3, 4, 5::nat]. walk_param (1351079888211149 / 2 ^ 51) (225179981368525 / 2 ^ 49) k \<le> 4"
    unfolding list.set ball_simps resumed_walk_0 resumed_walk_1 resumed_walk_2 resumed_walk_3 resumed_walk_4 resumed_walk_5
    by simp
  moreover have "[0..<6] = [0, 1, 2, 3, 4, 5::nat]" by code_simp
  ultimately have "\<forall>k\<in>set [0..<6]. walk_param (1351079888211149 / 2 ^ 51) (225179981368525 / 2 ^ 49) k \<le> 4" by (simp only:)
  then show ?thesis by simp
qed

lemma second_above: "4 < walk_param (1351079888211149 / 2 ^ 51) (225179981368525 / 2 ^ 49) 6"
  unfolding resumed_walk_6 by simp

lemma second_carry: "fl (4503599627370497 / 2 ^ 50 - 4) = 1 / 2 ^ 50"
  by (subst fl_eval_nat [where a = 0 and b = 50]) (simp_all add: round_half_even_def)

lemma split_run:
  "\<exists>st'. interpolate_path fine_settings [mouse_pt 0 0, mouse_pt 2 0, mouse_pt 6 0] blank = Normal () st'
      \<and> length (stamps st') = 10
      \<and> distRemainder st' = 1 / 2 ^ 50"
proof -
  obtain cv where cv: "canvasRef blank = Some cv" using blank_canvas(1) by blast
  have pos1: "0 < seg_length (mouse_pt 0 0) (mouse_pt 2 0)"
    and bd1: "seg_length (mouse_pt 0 0) (mouse_pt 2 0) < 2 ^ 51"
    and pos2: "0 < seg_length (mouse_pt 2 0) (mouse_pt 6 0)"
    and bd2: "seg_length (mouse_pt 2 0) (mouse_pt 6 0) < 2 ^ 51"
    by (simp_all add: seg_length_horizontal)
  have c: "0 \<le> distRemainder blank" by (simp add: blank_canvas)
  from interpolate_run [OF fine_settings_fields(1-3) mouse_pt_pressure(1,2) mouse_pt_pressure(1)
      pos1 bd1 fine_product_bound c cv]
  obtain n st1 cv1 where
    i1: "interpolate fine_settings (mouse_pt 0 0) (mouse_pt 2 0) blank = Normal () st1"
    and le1: "\<forall>k<n. walk_param (1351079888211149 / 2 ^ 51) 0 k \<le> 2"
    and gt1: "2 < walk_param (1351079888211149 / 2 ^ 51) 0 n"
    and s1: "stamps st1 = map (\<lambda>k. At (stamp_on (mouse_pt 0 0) (mouse_pt 2 0)
                                   (walk_param (1351079888211149 / 2 ^ 51) 0 k))) [0..<n]"
    and r1: "distRemainder st1 = fl (walk_param (1351079888211149 / 2 ^ 51) 0 n - 2)"
    and cr1: "canvasRef st1 = Some cv1"
    unfolding step_of_fine seg_length_horizontal blank_canvas by auto
  have n: "n = 4"
    by (rule first_above_unique [OF le1 gt1 first_below first_above])
  have r1': "distRemainder st1 = 225179981368525 / 2 ^ 49"
    unfolding r1 n fine_walk_4 by (rule first_carry)
  have c1: "0 \<le> distRemainder st1" unfolding r1' by simp
  from interpolate_run [OF fine_settings_fields(1-3) mouse_pt_pressure(1,2) mouse_pt_pressure(1)
      pos2 bd2 fine_product_bound c1 cr1]
  obtain m st2 where
    i2: "interpolate fine_settings (mouse_pt 2 0) (mouse_pt 6 0) st1 = Normal () st2"
    and le2: "\<forall>k<m. walk_param (1351079888211149 / 2 ^ 51) (225179981368525 / 2 ^ 49) k \<le> 4"
    and gt2: "4 < walk_param (1351079888211149 / 2 ^ 51) (225179981368525 / 2 ^ 49) m"
    and s2: "stamps st2 = stamps st1 @ map (\<lambda>k. At (stamp_on (mouse_pt 2 0) (mouse_pt 6 0)
               (walk_param (1351079888211149 / 2 ^ 51) (225179981368525 / 2 ^ 49) k))) [0..<m]"
    and r2: "distRemainder st2 =
        fl (walk_param (1351079888211149 / 2 ^ 51) (225179981368525 / 2 ^ 49) m - 4)"
    unfolding step_of_fine seg_length_horizontal r1' by auto
  have m: "m = 6"
    by (rule first_above_unique [OF le2 gt2 second_below second_above])
  have "distRemainder st2 = 1 / 2 ^ 50"
    unfolding r2 m resumed_walk_6 by (rule second_carry)
  moreover have "length (stamps st2) = 10" unfolding s2 s1 by (simp add: n m)
  ultimately show ?thesis by (simp add: i1 i2)
qed

lemma tap_down_state:
  "tap_down = (blank\<lparr>isDrawing := True,
       lastPoint := Some \<lparr>px = 10, py = 10, pressure = Some (1 / 2), tilt = Some 0\<rparr>,
       canvasRef := Some \<lparr>rect_left = 0, rect_top = 0, width = 200, height = 50,
          ctx = fill \<lparr>fillStyle = Solid (28, 25, 23), globalAlpha = 1,
                      path = [\<lparr>d_cx = 10, d_cy = 10, d_r = 5\<rparr>], bitmap = (\<lambda>q. beige)\<rparr>\<rparr>,
       stamps := [At \<lparr>px = 10, py = 10, pressure = Some (1 / 2), tilt = Some 0\<rparr>]\<rparr>)"
  by (simp add: tap_down_def startDrawing_def blank_def initial_settings_def mounted_def
        pointer_at_def getCoordinates_def drawStamp_def Let_def paint_brush_def set_ctx_def
        arc_def beginPath_def set_globalAlpha_def)

lemma getCoordinates_pressure:
  assumes "canvasRef st = Some cv" and "0 \<le> ev_pressure e"
  shows "\<exists>p. pressure (getCoordinates e st) = Some p \<and> 0 < p \<and> pressure_or_default (Some p) = p"
  using assms by (simp add: getCoordinates_def pressure_or_default_def)

lemma stopDrawing_keeps:
  "stamps (stopDrawing st) = stamps st" "surface (stopDrawing st) = surface st"
  "distRemainder (stopDrawing st) = distRemainder st"
  by (simp_all add: stopDrawing_def surface_def)

section \<open>Interpolation between two samples\<close>

lemma fine_exact_step:
  "max (1 / 2) (bsize fine_settings * spacing fine_settings) = 10808639105689191 / 2 ^ 54"
  by (simp add: fine_settings_fields fl_fifth)

text \<open>
  Claim C1, as the specification states it, fails in the parameters of the walk: the
  source adds the step to the running parameter in double precision, so the parameters
  are rounded sums and not \<open>carry + k * step\<close>. With size 3 and spacing 0.2 the step of
  the claim is \<open>3 * spacing\<close>, a little more than 0.6. On the segment from \<open>(0, 0)\<close> to
  \<open>(6, 0)\<close>, walked from remainder 0, exactly ten of the parameters \<open>k * step\<close> are at
  most 6 (\<open>9 * step \<le> 6 < 10 * step\<close>, also with the product rounded to a double, as
  \<open>step_of\<close> has it), and the first one beyond leaves the remainder
  \<open>10 * step - 6 = 3 / 2 ^ 53\<close>. The code requests eleven stamps, the last of them at the
  end point \<open>(6, 0)\<close>, because its tenth rounded sum is exactly 6, and it leaves the
  remainder \<open>337769972052787 / 2 ^ 49\<close>, which is 0.5999999999999996.
\<close>

theorem interpolate_rounding_counterexample:
  "seg_length (mouse_pt 0 0) (mouse_pt 6 0) = 6 \<and> distRemainder blank = 0
   \<and> 0 + 9 * max (1 / 2) (bsize fine_settings * spacing fine_settings) \<le> 6
   \<and> 6 < 0 + 10 * max (1 / 2) (bsize fine_settings * spacing fine_settings)
   \<and> 0 + 9 * step_of fine_settings \<le> 6 \<and> 6 < 0 + 10 * step_of fine_settings
   \<and> interpolate fine_settings (mouse_pt 0 0) (mouse_pt 6 0) blank =
       Normal () (state_of (interpolate fine_settings (mouse_pt 0 0) (mouse_pt 6 0) blank))
   \<and> length (stamps (state_of (interpolate fine_settings (mouse_pt 0 0) (mouse_pt 6 0) blank))) = 11
   \<and> last (stamps (state_of (interpolate fine_settings (mouse_pt 0 0) (mouse_pt 6 0) blank))) =
       At \<lparr>px = 6, py = 0, pressure = Some (1 / 2), tilt = None\<rparr>
   \<and> distRemainder (state_of (interpolate fine_settings (mouse_pt 0 0) (mouse_pt 6 0) blank)) =
       337769972052787 / 2 ^ 49
   \<and> 0 + 10 * max (1 / 2) (bsize fine_settings * spacing fine_settings) - 6 = 3 / 2 ^ 53"
proof -
  obtain st' where i: "interpolate fine_settings (mouse_pt 0 0) (mouse_pt 6 0) blank = Normal () st'"
    and s: "stamps st' = map (\<lambda>k. At (stamp_on (mouse_pt 0 0) (mouse_pt 6 0)
                                   (walk_param (1351079888211149 / 2 ^ 51) 0 k))) [0..<11]"
    and r: "distRemainder st' = 337769972052787 / 2 ^ 49"
    using whole_run by blast
  have l: "last (stamps st') = At (stamp_on (mouse_pt 0 0) (mouse_pt 6 0)
      (walk_param (1351079888211149 / 2 ^ 51) 0 10))"
    unfolding s by (simp add: last_map)
  have e: "last (stamps st') = At \<lparr>px = 6, py = 0, pressure = Some (1 / 2), tilt = None\<rparr>"
    unfolding l fine_walk_10 stamp_on_end ..
  have n: "length (stamps st') = 11" unfolding s by simp
  show ?thesis
    unfolding fine_exact_step step_of_fine i state_of.simps
    using e n r by (simp add: seg_length_horizontal blank_canvas)
qed

text \<open>
  Claim C1, amended. Take two points \<open>prev\<close>, \<open>cur\<close> whose distance \<open>dist\<close>, as the source
  computes it, is positive, a setting of a tool other than pixel, and a remainder
  \<open>carry \<ge> 0\<close>; let the points carry a pressure that is present and positive, as
  \<open>getCoordinates\<close> delivers it (that of \<open>prev\<close> a double), let hardness and size be not
  negative, and let \<open>dist < 2 ^ 51\<close> and \<open>size * spacing \<le> 2 ^ 50\<close>, so that adding the
  step always moves the parameter. Then \<open>interpolate\<close> returns normally and requests
  stamps exactly at the parameters \<open>t 0 = carry\<close>, \<open>t (k + 1) = fl (t k + step)\<close>, each
  sum rounded to double precision, for all \<open>k < n\<close>, where
  \<open>step = max 0.5 (fl (size * spacing))\<close> and \<open>n\<close> is the index of the first parameter
  that exceeds \<open>dist\<close>. Each stamp lies at the linear interpolation of the two positions
  at \<open>u = fl (t / dist)\<close>, and its pressure is the linear interpolation of the two
  pressures at \<open>u\<close>, every operation rounded. The remainder left for the next segment is
  \<open>fl (t n - dist)\<close>: the first parameter that exceeded \<open>dist\<close>, minus \<open>dist\<close>.
\<close>

theorem interpolate_stamps:
  assumes "tool s \<noteq> PIXEL" and "0 \<le> hardness s" and "0 \<le> bsize s"
    and "bsize s * spacing s \<le> 2 ^ 50"
    and "pressure prev = Some p0" and "0 < p0" and "fl p0 = p0"
    and "pressure cur = Some p1" and "0 < p1"
    and "0 < seg_length prev cur" and "seg_length prev cur < 2 ^ 51"
    and "0 \<le> distRemainder st" and "canvasRef st \<noteq> None"
  shows "let dx = fl (px cur - px prev); dy = fl (py cur - py prev);
             dist = fl (sqrt (fl (fl (dx * dx) + fl (dy * dy))));
             step = max (1 / 2) (fl (bsize s * spacing s));
             carry = distRemainder st;
             t = walk_param step carry
         in \<exists>n st'. interpolate s prev cur st = Normal () st'
              \<and> (\<forall>k<n. t k \<le> dist) \<and> dist < t n
              \<and> stamps st' = stamps st @
                   map (\<lambda>k. let u = fl (t k / dist)
                            in At \<lparr>px = fl (px prev + fl (dx * u)),
                                   py = fl (py prev + fl (dy * u)),
                                   pressure = Some (fl (p0 + fl (fl (p1 - p0) * u))),
                                   tilt = None\<rparr>) [0..<n]
              \<and> distRemainder st' = fl (t n - dist)"
proof -
  from assms(13) obtain cv where cv: "canvasRef st = Some cv" by blast
  have pa: "pressure_or_default (pressure prev) = p0"
    and pb: "pressure_or_default (pressure cur) = p1"
    using assms(5,6,8,9) by (simp_all add: pressure_or_default_def)
  have a: "0 \<le> pressure_or_default (pressure prev)"
    and b: "fl (pressure_or_default (pressure prev)) = pressure_or_default (pressure prev)"
    and c: "0 \<le> pressure_or_default (pressure cur)"
    using assms(6,7,9) by (simp_all add: pa pb)
  from interpolate_run [OF assms(1-3) a b c assms(10,11,4,12) cv]
  obtain n st' where "interpolate s prev cur st = Normal () st'"
    "\<forall>k<n. walk_param (step_of s) (distRemainder st) k \<le> seg_length prev cur"
    "seg_length prev cur < walk_param (step_of s) (distRemainder st) n"
    "stamps st' = stamps st @
       map (\<lambda>k. At (stamp_on prev cur (walk_param (step_of s) (distRemainder st) k))) [0..<n]"
    "distRemainder st' = fl (walk_param (step_of s) (distRemainder st) n - seg_length prev cur)"
    by blast
  then show ?thesis
    unfolding Let_def seg_length_unfold step_of_def [symmetric]
    by (intro exI [of _ n] exI [of _ st']) (simp add: stamp_on_def pa pb)
qed

theorem interpolate_stamps_witness:
  "tool initial_settings \<noteq> PIXEL \<and> pressure (mouse_pt 0 0) = Some (1 / 2)
   \<and> seg_length (mouse_pt 0 0) (mouse_pt 4 0) = 4 \<and> distRemainder blank = 0
   \<and> (\<exists>st'. interpolate initial_settings (mouse_pt 0 0) (mouse_pt 4 0) blank = Normal () st'
         \<and> stamps st' = map (\<lambda>v. At \<lparr>px = v, py = 0, pressure = Some (1 / 2), tilt = None\<rparr>)
                           [0, 1, 2, 3, 4]
         \<and> distRemainder st' = 1)"
proof -
  have pr: "bsize initial_settings * spacing initial_settings \<le> 2 ^ 50"
    by (simp add: initial_settings_def)
  have h: "(0::real) < 1 / 2" "fl (1 / 2) = 1 / 2" by simp_all
  have d: "0 < seg_length (mouse_pt 0 0) (mouse_pt 4 0)" "seg_length (mouse_pt 0 0) (mouse_pt 4 0) < 2 ^ 51"
    by (simp_all add: seg_length_horizontal)
  have c: "0 \<le> distRemainder blank" by (simp add: blank_canvas)
  have st: "max (1 / 2) (fl (bsize initial_settings * spacing initial_settings)) = 1"
    by (simp add: initial_settings_def)
  have sl: "fl (sqrt (fl (fl (fl (4 - 0) * fl (4 - 0)) + fl (fl (0 - 0) * fl (0 - 0))))) = 4"
    by (simp add: sqrt_16)
  from interpolate_stamps [OF initial_settings_brush pr mouse_pt_fields(3) h mouse_pt_fields(3) h(1)
      d c blank_canvas(1)]
  obtain n st' where i: "interpolate initial_settings (mouse_pt 0 0) (mouse_pt 4 0) blank = Normal () st'"
    and le: "\<forall>k<n. walk_param 1 0 k \<le> 4" and gt: "4 < walk_param 1 0 n"
    and s: "stamps st' = stamps blank @
        map (\<lambda>k. At \<lparr>px = fl (0 + fl (fl (4 - 0) * fl (walk_param 1 0 k / 4))),
                       py = fl (0 + fl (fl (0 - 0) * fl (walk_param 1 0 k / 4))),
                       pressure = Some (fl (1 / 2 + fl (fl (1 / 2 - 1 / 2) * fl (walk_param 1 0 k / 4)))),
                       tilt = None\<rparr>) [0..<n]"
    and r: "distRemainder st' = fl (walk_param 1 0 n - 4)"
    unfolding Let_def mouse_pt_fields st sl blank_canvas(2) by blast
  have "\<forall>k<5. walk_param 1 0 k \<le> 4" by (simp add: walk_unit)
  moreover have "4 < walk_param 1 0 5" by (simp add: walk_unit)
  ultimately have n: "n = 5" by (rule first_above_unique [OF le gt])
  have u: "[0..<5] = [0, 1, 2, 3, 4::nat]" by code_simp
  show ?thesis
    using i s r
    by (simp add: n u walk_unit fl_quarter fl_three_quarters seg_length_horizontal blank_canvas
          initial_settings_def mouse_pt_fields)
qed

text \<open>
  A segment of length zero with a positive remainder: the loop is not entered and the
  state, with the remainder, is what it was.
\<close>

lemma interpolate_zero_length_positive_carry:
  assumes "seg_length a b = 0" and "0 < distRemainder st"
    and "fl (distRemainder st) = distRemainder st"
  shows "interpolate s a b st = Normal () st"
  using assms
  by (simp add: interpolate_def Let_def loop_exit seg_length_unfold)

lemma interpolate_zero_length_soft_brush:
  "interpolate soft_settings (mouse_pt 10 10) (mouse_pt 10 10) blank =
     Threw TypeError (blank\<lparr>stamps := [NotFinite]\<rparr>)"
  by (simp add: interpolate_def Let_def interpolate_loop.simps drawStamp_NaN_def mouse_pt_def
        blank_def mounted_def soft_settings_def initial_settings_def set_ctx_def
        set_globalAlpha_def)

text \<open>
  Claim C2 does not hold of the code when the remainder is 0. After a pointer down at
  \<open>(10, 10)\<close> with the initial settings the remainder is 0 and \<open>lastPoint\<close> is that
  point; a pointer move to the same position calls \<open>interpolate\<close> on two equal points.
  The loop is entered (\<open>0 \<le> 0\<close>), divides by \<open>dist = 0\<close>, requests one stamp at NaN, and
  the remainder becomes the step, 1, instead of staying 0.
\<close>

theorem interpolate_zero_length_stamps:
  "lastPoint tap_down = Some \<lparr>px = 10, py = 10, pressure = Some (1 / 2), tilt = Some 0\<rparr>
   \<and> getCoordinates (pointer_at 10 10) tap_down =
       \<lparr>px = 10, py = 10, pressure = Some (1 / 2), tilt = Some 0\<rparr>
   \<and> distRemainder tap_down = 0
   \<and> stamps (state_of (interpolate initial_settings
         \<lparr>px = 10, py = 10, pressure = Some (1 / 2), tilt = Some 0\<rparr>
         \<lparr>px = 10, py = 10, pressure = Some (1 / 2), tilt = Some 0\<rparr> tap_down))
       = stamps tap_down @ [NotFinite]
   \<and> distRemainder (state_of (interpolate initial_settings
         \<lparr>px = 10, py = 10, pressure = Some (1 / 2), tilt = Some 0\<rparr>
         \<lparr>px = 10, py = 10, pressure = Some (1 / 2), tilt = Some 0\<rparr> tap_down)) = 1"
  by (simp add: tap_down_state blank_def initial_settings_def mounted_def pointer_at_def
        getCoordinates_def drawStamp_NaN_def Let_def set_ctx_def beginPath_def
        set_globalAlpha_def interpolate_def interpolate_loop.simps)

lemma split_path_facts:
  "proper_segments [mouse_pt 0 0, mouse_pt 2 0, mouse_pt 6 0]"
  "path_length [mouse_pt 0 0, mouse_pt 2 0, mouse_pt 6 0] = 6"
  "double_pressure (mouse_pt vx vy)"
  by (simp_all add: seg_length_horizontal double_pressure_def mouse_pt_fields)

text \<open>
  Claim C3, as the specification states it, fails in the final carry: the remainders of
  the two runs can differ by a whole step. With size 3 and spacing 0.2, from remainder 0,
  the move from \<open>(0, 0)\<close> to \<open>(6, 0)\<close> made in two sub-moves, to \<open>(2, 0)\<close> and on to
  \<open>(6, 0)\<close>, requests 10 stamps and leaves the remainder \<open>1 / 2 ^ 50\<close>; made in one move
  it requests 11 stamps and leaves the remainder \<open>337769972052787 / 2 ^ 49\<close>, which is
  0.5999999999999996. The rounded sums of the single run reach 6 exactly, those of the
  second sub-move pass it by \<open>1 / 2 ^ 50\<close>.
\<close>

theorem split_segment_carry_counterexample:
  "path_length [mouse_pt 0 0, mouse_pt 2 0, mouse_pt 6 0] = seg_length (mouse_pt 0 0) (mouse_pt 6 0)
   \<and> distRemainder blank = 0
   \<and> interpolate_path fine_settings [mouse_pt 0 0, mouse_pt 2 0, mouse_pt 6 0] blank =
       Normal () (state_of (interpolate_path fine_settings
                              [mouse_pt 0 0, mouse_pt 2 0, mouse_pt 6 0] blank))
   \<and> length (stamps (state_of (interpolate_path fine_settings
                                 [mouse_pt 0 0, mouse_pt 2 0, mouse_pt 6 0] blank))) = 10
   \<and> distRemainder (state_of (interpolate_path fine_settings
                                 [mouse_pt 0 0, mouse_pt 2 0, mouse_pt 6 0] blank)) = 1 / 2 ^ 50
   \<and> interpolate fine_settings (mouse_pt 0 0) (mouse_pt 6 0) blank =
       Normal () (state_of (interpolate fine_settings (mouse_pt 0 0) (mouse_pt 6 0) blank))
   \<and> length (stamps (state_of (interpolate fine_settings (mouse_pt 0 0) (mouse_pt 6 0) blank))) = 11
   \<and> distRemainder (state_of (interpolate fine_settings (mouse_pt 0 0) (mouse_pt 6 0) blank)) =
       337769972052787 / 2 ^ 49
   \<and> (1 / 2 ^ 50 :: real) < 337769972052787 / 2 ^ 49"
proof -
  obtain st1 where i1: "interpolate_path fine_settings [mouse_pt 0 0, mouse_pt 2 0, mouse_pt 6 0] blank
      = Normal () st1"
    and l1: "length (stamps st1) = 10" and r1: "distRemainder st1 = 1 / 2 ^ 50"
    using split_run by blast
  obtain st2 where i2: "interpolate fine_settings (mouse_pt 0 0) (mouse_pt 6 0) blank = Normal () st2"
    and s2: "stamps st2 = map (\<lambda>k. At (stamp_on (mouse_pt 0 0) (mouse_pt 6 0)
                                   (walk_param (1351079888211149 / 2 ^ 51) 0 k))) [0..<11]"
    and r2: "distRemainder st2 = 337769972052787 / 2 ^ 49"
    using whole_run by blast
  have l2: "length (stamps st2) = 11" unfolding s2 by simp
  show ?thesis
    unfolding i1 i2 state_of.simps
    using l1 r1 l2 r2 by (simp add: split_path_facts seg_length_horizontal blank_canvas)
qed

text \<open>
  Claim C3, amended. Take a move from \<open>a\<close> to \<open>b\<close> and a polyline from \<open>a\<close> through the
  points \<open>mid\<close> to \<open>b\<close> whose sub-segments have positive length and whose length is that
  of the segment from \<open>a\<close> to \<open>b\<close> up to a tolerance \<open>tol \<le> 1 / 8\<close>; a setting of a tool
  other than pixel; a canvas; pressures as \<open>getCoordinates\<close> delivers them; hardness and
  size not negative; and the length, the remainder, \<open>size * spacing\<close> and the number of
  sub-segments at most \<open>2 ^ 20\<close>. Then the calls of \<open>interpolate\<close> on the sub-segments in
  turn, each starting from the remainder the previous one left, and the single call on
  the whole segment both return normally; the two numbers of stamps \<open>n1\<close> and \<open>n2\<close> differ
  by at most one; and the remainders differ by \<open>(n1 - n2) * step\<close> up to the tolerance and
  one rounding error of \<open>1 / 2 ^ 32\<close> for each stamp and each call. So the remainders
  agree up to rounding when the two runs make the same number of stamps, and are one
  step apart when one run has made the stamp that the other one leaves to the next move.
\<close>

theorem split_segment_count_and_carry:
  assumes "tool s \<noteq> PIXEL" and "0 \<le> hardness s" and "0 \<le> bsize s"
    and "bsize s * spacing s \<le> 2 ^ 20"
    and "canvasRef st \<noteq> None" and "0 \<le> distRemainder st" and "distRemainder st \<le> 2 ^ 20"
    and "proper_segments (a # mid @ [b])" and "0 < seg_length a b"
    and "\<forall>p\<in>set (a # mid @ [b]). double_pressure p"
    and "\<bar>path_length (a # mid @ [b]) - seg_length a b\<bar> \<le> tol" and "tol \<le> 1 / 8"
    and "seg_length a b < 2 ^ 20" and "length mid < 2 ^ 20"
  shows "\<exists>st1 st2. interpolate_path s (a # mid @ [b]) st = Normal () st1
        \<and> interpolate s a b st = Normal () st2
        \<and> (let n1 = length (stamps st1) - length (stamps st);
                n2 = length (stamps st2) - length (stamps st)
            in (n1 = n2 \<or> n1 = n2 + 1 \<or> n2 = n1 + 1)
               \<and> \<bar>distRemainder st1 - distRemainder st2 - (real n1 - real n2) * step_of s\<bar>
                    \<le> tol + real (n1 + n2 + length mid + 2) / 2 ^ 32)"
proof -
  from assms(5) obtain cv where cv: "canvasRef st = Some cv" by blast
  define c where "c = distRemainder st"
  define sp where "sp = step_of s"
  define L where "L = path_length (a # mid @ [b])"
  define D where "D = seg_length a b"
  define N where "N = real (length (mid @ [b]))"
  have sp: "1 / 2 \<le> sp" "sp \<le> 2 ^ 20"
    using step_of_pos(1) step_of_small [OF assms(4)] by (simp_all add: sp_def)
  have N: "1 \<le> N" "N \<le> 2 ^ 20" "0 \<le> N" "N = real (length mid) + 1"
    using assms(14) by (simp_all add: N_def)
  have T: "\<bar>L - D\<bar> \<le> tol" "tol \<le> 1 / 8" using assms(11,12) by (simp_all add: L_def D_def)
  have D: "0 < D" "D < 2 ^ 20" using assms(9,13) by (simp_all add: D_def)
  have "(2::real) ^ 20 + 1 \<le> 2 ^ 21" by simp
  then have L21: "L < 2 ^ 21" using T D by linarith
  have c: "0 \<le> c" "c \<le> 2 ^ 20" using assms(6,7) by (simp_all add: c_def)
  have "2 * N / 2 ^ 32 \<le> 2 * 2 ^ 20 / 2 ^ 32" using N(2) by (intro divide_right_mono) simp_all
  then have "2 * N / 2 ^ 32 \<le> 1" by simp
  then have pre: "max sp c + 2 * N / 2 ^ 32 < 2 ^ 21" using sp(2) c(2) by (simp add: max_def)
  from path_account [OF assms(1-4) assms(8,10) L21 [unfolded L_def] assms(6)
      pre [unfolded sp_def c_def N_def] cv]
  obtain m1 st1 where i1: "interpolate_path s (a # mid @ [b]) st = Normal () st1"
    and l1: "length (stamps st1) = length (stamps st) + m1"
    and b1: "0 \<le> distRemainder st1"
    and a1: "\<bar>distRemainder st1 - (c + real m1 * sp - L)\<bar> \<le> (real m1 + N) / 2 ^ 32"
    and u1: "distRemainder st1 \<le> max sp (c - L) + 2 * N / 2 ^ 32"
    and k1: "real m1 \<le> 4 * L + N"
    unfolding c_def sp_def L_def N_def by blast
  have pa: "double_pressure a" and pb: "double_pressure b" using assms(10) by simp_all
  have D21: "seg_length a b < 2 ^ 21" using assms(13) by simp
  have c21: "distRemainder st < 2 ^ 21" using assms(7) by simp
  from segment_account [OF assms(1-4) pa pb assms(9) D21 assms(6) c21 cv]
  obtain m2 st2 where i2: "interpolate s a b st = Normal () st2"
    and l2: "length (stamps st2) = length (stamps st) + m2"
    and b2: "0 \<le> distRemainder st2"
    and a2: "\<bar>distRemainder st2 - (c + real m2 * sp - D)\<bar> \<le> (real m2 + 1) / 2 ^ 32"
    and u2: "distRemainder st2 \<le> max sp (c - D) + 2 / 2 ^ 32"
    and k2: "real m2 \<le> 4 * D + 1"
    unfolding c_def sp_def D_def by blast
  have u2': "distRemainder st2 \<le> max sp (c - D) + 2 * 1 / 2 ^ 32" using u2 by simp
  have T': "\<bar>D - L\<bar> \<le> tol" using T(1) by simp
  have D21': "D < 2 ^ 21" using D(2) by simp
  have one: "(0::real) \<le> 1" "(1::real) \<le> 2 ^ 20" by simp_all
  have g1: "\<not> m2 + 2 \<le> m1"
  proof
    assume "m2 + 2 \<le> m1"
    then have "real m2 + 2 \<le> real m1" by simp
    with count_gap [OF a1 a2 b2 u1 k1 k2 T L21 D21' N(3,2) one sp(1)]
    show False by simp
  qed
  have g2: "\<not> m1 + 2 \<le> m2"
  proof
    assume "m1 + 2 \<le> m2"
    then have "real m1 + 2 \<le> real m2" by simp
    with count_gap [OF a2 a1 b1 u2' k2 k1 T' T(2) D21' L21 one N(3,2) sp(1)]
    show False by simp
  qed
  have cnt: "m1 = m2 \<or> m1 = m2 + 1 \<or> m2 = m1 + 1" using g1 g2 by linarith
  have mul: "(real m1 - real m2) * sp = real m1 * sp - real m2 * sp" by (simp add: algebra_simps)
  have dv: "real (m1 + m2 + length mid + 2) / 2 ^ 32 = (real m1 + N) / 2 ^ 32 + (real m2 + 1) / 2 ^ 32"
    unfolding N(4) by (simp add: add_divide_distrib)
  have car: "\<bar>distRemainder st1 - distRemainder st2 - (real m1 - real m2) * sp\<bar>
      \<le> tol + real (m1 + m2 + length mid + 2) / 2 ^ 32"
    unfolding mul dv using a1 a2 T(1) by linarith
  have n1: "length (stamps st1) - length (stamps st) = m1" using l1 by simp
  have n2: "length (stamps st2) - length (stamps st) = m2" using l2 by simp
  show ?thesis
    apply (rule exI [of _ st1], rule exI [of _ st2])
    unfolding Let_def n1 n2 sp_def [symmetric]
    by (intro conjI i1 i2 cnt car)
qed

theorem split_segment_count_and_carry_witness:
  "tool fine_settings \<noteq> PIXEL
   \<and> proper_segments [mouse_pt 0 0, mouse_pt 2 0, mouse_pt 6 0]
   \<and> path_length [mouse_pt 0 0, mouse_pt 2 0, mouse_pt 6 0] = 6
   \<and> seg_length (mouse_pt 0 0) (mouse_pt 6 0) = 6
   \<and> (\<exists>st1 st2. interpolate_path fine_settings [mouse_pt 0 0, mouse_pt 2 0, mouse_pt 6 0] blank
                    = Normal () st1
         \<and> interpolate fine_settings (mouse_pt 0 0) (mouse_pt 6 0) blank = Normal () st2
         \<and> length (stamps st1) = 10 \<and> length (stamps st2) = 11
         \<and> \<bar>distRemainder st1 - distRemainder st2 + step_of fine_settings\<bar> \<le> 24 / 2 ^ 32)"
proof -
  have c: "0 \<le> distRemainder blank" "distRemainder blank \<le> 2 ^ 20" by (simp_all add: blank_canvas)
  have b: "bsize fine_settings * spacing fine_settings \<le> 2 ^ 20"
    by (simp add: fine_settings_fields fl_fifth)
  have pr: "proper_segments (mouse_pt 0 0 # [mouse_pt 2 0] @ [mouse_pt 6 0])"
    using split_path_facts(1) by simp
  have d: "0 < seg_length (mouse_pt 0 0) (mouse_pt 6 0)" "seg_length (mouse_pt 0 0) (mouse_pt 6 0) < 2 ^ 20"
    by (simp_all add: seg_length_horizontal)
  have dp: "\<forall>p\<in>set (mouse_pt 0 0 # [mouse_pt 2 0] @ [mouse_pt 6 0]). double_pressure p"
    by (simp add: split_path_facts(3))
  have t: "\<bar>path_length (mouse_pt 0 0 # [mouse_pt 2 0] @ [mouse_pt 6 0])
      - seg_length (mouse_pt 0 0) (mouse_pt 6 0)\<bar> \<le> 0" "(0::real) \<le> 1 / 8"
    by (simp_all add: split_path_facts(2) seg_length_horizontal)
  have n: "length [mouse_pt 2 0] < 2 ^ 20" by simp
  from split_segment_count_and_carry [OF fine_settings_fields(1-3) b blank_canvas(1) c pr d(1) dp t d(2) n]
  obtain st1 st2 where
    i1: "interpolate_path fine_settings [mouse_pt 0 0, mouse_pt 2 0, mouse_pt 6 0] blank = Normal () st1"
    and i2: "interpolate fine_settings (mouse_pt 0 0) (mouse_pt 6 0) blank = Normal () st2"
    and e: "\<bar>distRemainder st1 - distRemainder st2
            - (real (length (stamps st1)) - real (length (stamps st2))) * step_of fine_settings\<bar>
          \<le> 0 + real (length (stamps st1) + length (stamps st2) + 1 + 2) / 2 ^ 32"
    unfolding Let_def by (auto simp: blank_canvas)
  obtain st1' where "interpolate_path fine_settings [mouse_pt 0 0, mouse_pt 2 0, mouse_pt 6 0] blank
      = Normal () st1'" and "length (stamps st1') = 10"
    using split_run by blast
  then have l1: "length (stamps st1) = 10" using i1 by simp
  obtain st2' where "interpolate fine_settings (mouse_pt 0 0) (mouse_pt 6 0) blank = Normal () st2'"
    and "stamps st2' = map (\<lambda>k. At (stamp_on (mouse_pt 0 0) (mouse_pt 6 0)
                                   (walk_param (1351079888211149 / 2 ^ 51) 0 k))) [0..<11]"
    using whole_run by blast
  then have l2: "length (stamps st2) = 11" using i2 by simp
  have "\<bar>distRemainder st1 - distRemainder st2 + step_of fine_settings\<bar> \<le> 24 / 2 ^ 32"
    using e unfolding l1 l2 by simp
  then show ?thesis
    using i1 i2 l1 l2 by (auto simp: fine_settings_fields split_path_facts seg_length_horizontal)
qed

text \<open>
  A sub-segment of length zero is outside this statement. With the soft brush and
  remainder 0 the sequence of calls ends with the exception of the stamp at NaN, where
  the single call on the whole segment returns normally.
\<close>

lemma soft_whole_run:
  "interpolate soft_settings (mouse_pt 10 10) (mouse_pt 16 10) blank =
     Normal () (state_of (interpolate soft_settings (mouse_pt 10 10) (mouse_pt 16 10) blank))
   \<and> length (stamps (state_of (interpolate soft_settings (mouse_pt 10 10) (mouse_pt 16 10) blank))) = 4
   \<and> distRemainder (state_of (interpolate soft_settings (mouse_pt 10 10) (mouse_pt 16 10) blank)) = 2"
  by (simp add: mouse_pt_def blank_def soft_settings_def initial_settings_def mounted_def drawStamp_def
        Let_def paint_brush_def set_ctx_def arc_def beginPath_def set_globalAlpha_def
        createRadialGradient_def addColorStop_def
        interpolate_def interpolate_loop.simps sqrt_36 fill_def pressure_or_default_def)

lemma split_zero_length_sub_move:
  "interpolate_path soft_settings [mouse_pt 10 10, mouse_pt 10 10, mouse_pt 16 10] blank =
     Threw TypeError (blank\<lparr>stamps := [NotFinite]\<rparr>)
   \<and> interpolate soft_settings (mouse_pt 10 10) (mouse_pt 16 10) blank =
       Normal () (state_of (interpolate soft_settings (mouse_pt 10 10) (mouse_pt 16 10) blank))
   \<and> length (stamps (state_of (interpolate soft_settings (mouse_pt 10 10) (mouse_pt 16 10) blank))) = 4
   \<and> distRemainder (state_of (interpolate soft_settings (mouse_pt 10 10) (mouse_pt 16 10) blank)) = 2"
  using soft_whole_run by (simp add: interpolate_zero_length_soft_brush)

section \<open>Pointer moves outside a stroke\<close>

text \<open>
  Claim C10. A pointer move that arrives while no stroke is active (\<open>isDrawing\<close> is false
  or \<open>lastPoint\<close> is empty) returns at once: the whole state of the component, with the
  bitmap, the trace of stamps, \<open>lastPoint\<close> and \<open>distRemainder\<close>, is what it was.
\<close>

theorem continueDrawing_idle_noop:
  assumes "\<not> isDrawing st \<or> lastPoint st = None"
  shows "continueDrawing settings e st = Normal () st"
  using assms by (auto simp: continueDrawing_def split: option.splits)

theorem continueDrawing_idle_noop_witness:
  "\<not> isDrawing blank \<and> continueDrawing initial_settings (pointer_at 5 0) blank = Normal () blank"
proof -
  have idle: "\<not> isDrawing blank \<or> lastPoint blank = None"
    by (simp add: blank_def mounted_def)
  have "\<not> isDrawing blank" by (simp add: blank_def mounted_def)
  then show ?thesis
    using continueDrawing_idle_noop [OF idle, of initial_settings "pointer_at 5 0"] by simp
qed

section \<open>The end of a stroke\<close>

text \<open>
  Claim C4, as the specification states it, fails: \<open>stopDrawing\<close> does not write
  \<open>distRemainder\<close>. After a pointer down at \<open>(0, 0)\<close> and a move to \<open>(5, 0)\<close> with the
  initial settings the remainder is 1, and it is still 1 after the stroke has ended.
\<close>

theorem stopDrawing_remainder_counterexample:
  "isDrawing short_stroke \<and> distRemainder (stopDrawing short_stroke) = 1"
  using short_stroke_remainder by (simp add: stopDrawing_def)

text \<open>
  Claim C4, amended. For every active stroke state, the transition to idle sets
  \<open>isDrawing\<close> to false, clears \<open>lastPoint\<close> and sends the stroke-completion signal once;
  every other part of the state, \<open>distRemainder\<close> included, keeps its value. The
  remainder is zeroed by the next pointer down.
\<close>

theorem stopDrawing_active:
  assumes "isDrawing st"
  shows "stopDrawing st =
           st\<lparr>isDrawing := False, lastPoint := None, signals := signals st @ [StrokeEnd]\<rparr>
       \<and> distRemainder (stopDrawing st) = distRemainder st
       \<and> distRemainder (state_of (startDrawing settings e (stopDrawing st))) = 0"
  using assms by (simp add: stopDrawing_def startDrawing_def Let_def drawStamp_distRemainder)

theorem stopDrawing_active_witness:
  "isDrawing short_stroke
   \<and> stopDrawing short_stroke =
       short_stroke\<lparr>isDrawing := False, lastPoint := None,
                    signals := signals short_stroke @ [StrokeEnd]\<rparr>
   \<and> distRemainder (stopDrawing short_stroke) = distRemainder short_stroke
   \<and> distRemainder (state_of (startDrawing initial_settings (pointer_at 0 0)
                                 (stopDrawing short_stroke))) = 0"
proof -
  have active: "isDrawing short_stroke" using short_stroke_remainder by simp
  from active stopDrawing_active [OF active, of initial_settings "pointer_at 0 0"]
  show ?thesis by (rule conjI)
qed

section \<open>A tap\<close>

text \<open>
  Claim C8. A pointer down at a position followed by a pointer up, with no move in
  between, produces exactly one stamp, at the canvas coordinates \<open>p\<close> of the pointer
  down. On a canvas, with hardness not negative, opacity in \<open>[0, 1]\<close>, a positive size
  and a pointer pressure that is not negative, the pointer down returns normally, adds
  the one request \<open>At p\<close> to the trace and paints the mark of that stamp on the bitmap:
  in pixel mode the grid cell of \<open>p\<close> in the colour of the settings, otherwise the disc
  of radius \<open>r\<close> about \<open>p\<close> (moved by the jitter), composited as for every brush stamp.
  The pointer up changes neither the trace nor the bitmap.
\<close>

theorem tap_stamps_once:
  assumes "canvasRef st = Some cv"
    and "0 \<le> hardness s" and "0 \<le> opacity s" and "opacity s \<le> 1" and "0 < bsize s"
    and "0 \<le> ev_pressure e"
  shows "let p = getCoordinates e st;
             size' = bsize s * (if isStylus s then pressure_or_default (pressure p) else 1);
             r = size' / 2;
             cx = px p + (if 0 < jitter s
                          then (random_source st 0 - 1 / 2) * jitter s * size' * 2 else 0);
             cy = py p + (if 0 < jitter s
                          then (random_source st 1 - 1 / 2) * jitter s * size' * 2 else 0);
             col = (if tool s = ERASER then beige else color s);
             pixelSize = max 1 (real_of_int \<lfloor>bsize s / 2\<rfloor>);
             x = real_of_int \<lfloor>px p / pixelSize\<rfloor> * pixelSize;
             y = real_of_int \<lfloor>py p / pixelSize\<rfloor> * pixelSize
         in px p = clientX e - rect_left cv \<and> py p = clientY e - rect_top cv
            \<and> (\<exists>st1. startDrawing s e st = Normal () st1
                 \<and> stamps st1 = stamps st @ [At p]
                 \<and> surface st1 = Some (\<lambda>q.
                      let d = euclid cx cy (fst q) (snd q); old = bitmap (ctx cv) q
                      in if tool s = PIXEL then
                           (if x \<le> fst q \<and> fst q < x + pixelSize \<and>
                               y \<le> snd q \<and> snd q < y + pixelSize
                            then color s else old)
                         else if hardness s < 1 then
                           (if d \<le> hardness s * r then blend (opacity s) col old
                            else if d \<le> r
                              then blend (opacity s * ((r - d) / (r - hardness s * r))) col old
                            else old)
                         else (if d \<le> r then blend (opacity s) col old else old))
                 \<and> stamps (stopDrawing st1) = stamps st1
                 \<and> surface (stopDrawing st1) = surface st1)"
proof -
  define p where "p = getCoordinates e st"
  define st3 where "st3 = st\<lparr>isDrawing := True, lastPoint := Some p, distRemainder := 0\<rparr>"
  define sz where "sz = bsize s * (if isStylus s then pressure_or_default (pressure p) else 1)"
  define cx where
    "cx = px p + (if 0 < jitter s then (random_source st 0 - 1 / 2) * jitter s * sz * 2 else 0)"
  define cy where
    "cy = py p + (if 0 < jitter s then (random_source st 1 - 1 / 2) * jitter s * sz * 2 else 0)"
  define ps where "ps = max 1 (real_of_int \<lfloor>bsize s / 2\<rfloor>)"
  define x where "x = real_of_int \<lfloor>px p / ps\<rfloor> * ps"
  define y where "y = real_of_int \<lfloor>py p / ps\<rfloor> * ps"
  have gc: "getCoordinates e (st\<lparr>isDrawing := True\<rparr>) = p"
    by (simp add: p_def getCoordinates_def)
  have sd: "startDrawing s e st = drawStamp s p st3"
    by (simp add: startDrawing_def Let_def gc st3_def)
  have cr3: "canvasRef st3 = Some cv" and s3: "stamps st3 = stamps st"
    and rs: "random_source st3 = random_source st"
    using assms(1) by (simp_all add: st3_def)
  have xy: "px p = clientX e - rect_left cv" "py p = clientY e - rect_top cv"
    using assms(1) by (simp_all add: p_def getCoordinates_def)
  from getCoordinates_pressure [OF assms(1,6)]
  have "0 < pressure_or_default (pressure p)" unfolding p_def by auto
  then have sz: "0 < sz" "0 \<le> sz" using assms(5) by (simp_all add: sz_def)
  have main: "\<exists>st1. drawStamp s p st3 = Normal () st1
      \<and> stamps st1 = stamps st @ [At p]
      \<and> surface st1 = Some (\<lambda>q.
           if tool s = PIXEL then
             (if x \<le> fst q \<and> fst q < x + ps \<and> y \<le> snd q \<and> snd q < y + ps
              then color s else bitmap (ctx cv) q)
           else if hardness s < 1 then
             (if euclid cx cy (fst q) (snd q) \<le> hardness s * (sz / 2)
                then blend (opacity s) (if tool s = ERASER then beige else color s) (bitmap (ctx cv) q)
              else if euclid cx cy (fst q) (snd q) \<le> sz / 2
                then blend (opacity s * ((sz / 2 - euclid cx cy (fst q) (snd q)) / (sz / 2 - hardness s * (sz / 2))))
                       (if tool s = ERASER then beige else color s) (bitmap (ctx cv) q)
              else bitmap (ctx cv) q)
           else (if euclid cx cy (fst q) (snd q) \<le> sz / 2
                 then blend (opacity s) (if tool s = ERASER then beige else color s) (bitmap (ctx cv) q)
                 else bitmap (ctx cv) q))"
  proof (cases "tool s = PIXEL")
    case True
    define c1 where "c1 = fillRect x y ps ps ((ctx cv)\<lparr>fillStyle := Solid (color s), globalAlpha := 1\<rparr>)"
    have ps: "0 \<le> ps" by (simp add: ps_def)
    have d1: "drawStamp s p st3 = Normal () (set_ctx c1 (st3\<lparr>stamps := stamps st3 @ [At p]\<rparr>))"
      using drawStamp_pixel [OF True cr3, of p] by (simp add: c1_def x_def y_def ps_def)
    have b1: "bitmap c1 = (\<lambda>q. if x \<le> fst q \<and> fst q < x + ps \<and> y \<le> snd q \<and> snd q < y + ps
                               then color s else bitmap (ctx cv) q)"
      unfolding c1_def by (subst bitmap_fillRect_solid [OF ps ps]) (simp_all cong: if_cong)
    have "surface (set_ctx c1 (st3\<lparr>stamps := stamps st3 @ [At p]\<rparr>)) = Some (bitmap c1)"
      using cr3 by (simp add: surface_set_ctx)
    then show ?thesis using True by (simp add: d1 b1 s3)
  next
    case False
    have cr: "canvasRef (after_jitter s (st3\<lparr>stamps := stamps st3 @ [At p]\<rparr>)) = Some cv"
      using cr3 by (simp add: after_jitter_def)
    have sz0: "0 \<le> bsize s * (if isStylus s then pressure_or_default (pressure p) else 1)"
      unfolding sz_def [symmetric] by (rule sz(2))
    have d: "drawStamp s p st3 = Normal () (set_ctx (brush_paint s cx cy sz (ctx cv))
          (after_jitter s (st3\<lparr>stamps := stamps st3 @ [At p]\<rparr>)))"
      using drawStamp_brush [OF False cr3 assms(2) sz0]
      by (simp add: sz_def cx_def cy_def jitter_x_def jitter_y_def rs)
    have sf: "surface (set_ctx (brush_paint s cx cy sz (ctx cv))
          (after_jitter s (st3\<lparr>stamps := stamps st3 @ [At p]\<rparr>))) =
       Some (bitmap (brush_paint s cx cy sz (ctx cv)))"
      by (rule surface_set_ctx [OF cr])
    have st: "stamps (set_ctx (brush_paint s cx cy sz (ctx cv))
          (after_jitter s (st3\<lparr>stamps := stamps st3 @ [At p]\<rparr>))) = stamps st @ [At p]"
      by (simp add: after_jitter_def s3)
    have b: "bitmap (brush_paint s cx cy sz (ctx cv)) = (\<lambda>q.
           if hardness s < 1 then
             (if euclid cx cy (fst q) (snd q) \<le> hardness s * (sz / 2)
                then blend (opacity s) (if tool s = ERASER then beige else color s) (bitmap (ctx cv) q)
              else if euclid cx cy (fst q) (snd q) \<le> sz / 2
                then blend (opacity s * ((sz / 2 - euclid cx cy (fst q) (snd q)) / (sz / 2 - hardness s * (sz / 2))))
                       (if tool s = ERASER then beige else color s) (bitmap (ctx cv) q)
              else bitmap (ctx cv) q)
           else (if euclid cx cy (fst q) (snd q) \<le> sz / 2
                 then blend (opacity s) (if tool s = ERASER then beige else color s) (bitmap (ctx cv) q)
                 else bitmap (ctx cv) q))"
      by (rule ext) (simp only: bitmap_brush_paint [OF assms(3,4) sz(1) assms(2)] Let_def)
    show ?thesis
      by (rule exI, intro conjI, rule d, rule st, simp only: sf b False if_False)
  qed
  then obtain st1 where d: "drawStamp s p st3 = Normal () st1"
    and t: "stamps st1 = stamps st @ [At p]"
    and f: "surface st1 = Some (\<lambda>q.
           if tool s = PIXEL then
             (if x \<le> fst q \<and> fst q < x + ps \<and> y \<le> snd q \<and> snd q < y + ps
              then color s else bitmap (ctx cv) q)
           else if hardness s < 1 then
             (if euclid cx cy (fst q) (snd q) \<le> hardness s * (sz / 2)
                then blend (opacity s) (if tool s = ERASER then beige else color s) (bitmap (ctx cv) q)
              else if euclid cx cy (fst q) (snd q) \<le> sz / 2
                then blend (opacity s * ((sz / 2 - euclid cx cy (fst q) (snd q)) / (sz / 2 - hardness s * (sz / 2))))
                       (if tool s = ERASER then beige else color s) (bitmap (ctx cv) q)
              else bitmap (ctx cv) q)
           else (if euclid cx cy (fst q) (snd q) \<le> sz / 2
                 then blend (opacity s) (if tool s = ERASER then beige else color s) (bitmap (ctx cv) q)
                 else bitmap (ctx cv) q))"
    by blast
  show ?thesis
    unfolding Let_def p_def [symmetric] sz_def [symmetric] cx_def [symmetric] cy_def [symmetric]
      ps_def [symmetric] x_def [symmetric] y_def [symmetric]
    apply (intro conjI xy)
    apply (rule exI [of _ st1])
    apply (intro conjI)
        apply (simp only: sd d)
       apply (rule t)
      apply (rule f)
     apply (rule stopDrawing_keeps(1))
    apply (rule stopDrawing_keeps(2))
    done
qed

theorem tap_stamps_once_witness:
  "canvasRef blank \<noteq> None \<and> 0 \<le> ev_pressure (pointer_at 10 10)
   \<and> (\<exists>st1 f. startDrawing initial_settings (pointer_at 10 10) blank = Normal () st1
         \<and> stamps (stopDrawing st1) = [At \<lparr>px = 10, py = 10, pressure = Some (1 / 2), tilt = Some 0\<rparr>]
         \<and> surface (stopDrawing st1) = Some f
         \<and> f (10, 10) = (28, 25, 23) \<and> f (15, 10) = (28, 25, 23) \<and> f (16, 10) = beige)"
proof -
  have h: "0 \<le> hardness initial_settings" and o: "0 \<le> opacity initial_settings"
    "opacity initial_settings \<le> 1" and b: "0 < bsize initial_settings"
    by (simp_all add: initial_settings_def)
  have e: "0 \<le> ev_pressure (pointer_at 10 10)" by (simp add: pointer_at_def)
  have g: "getCoordinates (pointer_at 10 10) blank =
      \<lparr>px = 10, py = 10, pressure = Some (1 / 2), tilt = Some 0\<rparr>"
    by (simp add: getCoordinates_def blank_def mounted_def pointer_at_def)
  have one: "blend 1 (28, 25, 23) beige = (28, 25, 23)" by (simp add: blend_def beige_def)
  show ?thesis
    using e tap_stamps_once [OF blank_canvas_value h o b e]
    by (auto simp: g initial_settings_def Let_def euclid_same_y one blank_canvas)
qed

section \<open>One stamp\<close>

text \<open>
  Claim C7. In pixel mode, with \<open>pixelSize = max 1 (floor (size / 2))\<close>, a stamp at any
  point returns normally and changes the bitmap in exactly one grid cell: the cell of
  side \<open>pixelSize\<close> whose origin is \<open>(floor (x / pixelSize) * pixelSize,
  floor (y / pixelSize) * pixelSize)\<close> takes the colour of the settings, fully opaque,
  and every position outside it keeps its colour. Pressure, jitter, hardness and opacity
  do not appear in the result, and no random number is drawn. A second stamp at the same
  point with the same settings leaves the bitmap as the first one made it.
\<close>

theorem pixel_stamp_cell:
  assumes "tool settings = PIXEL" and "canvasRef st = Some cv"
  shows "let pixelSize = max 1 (real_of_int \<lfloor>bsize settings / 2\<rfloor>);
             x = real_of_int \<lfloor>px pt / pixelSize\<rfloor> * pixelSize;
             y = real_of_int \<lfloor>py pt / pixelSize\<rfloor> * pixelSize
         in \<exists>st1. drawStamp settings pt st = Normal () st1
              \<and> surface st1 = Some (\<lambda>q. if x \<le> fst q \<and> fst q < x + pixelSize \<and>
                                            y \<le> snd q \<and> snd q < y + pixelSize
                                         then color settings else bitmap (ctx cv) q)
              \<and> surface (state_of (drawStamp settings pt st1)) = surface st1
              \<and> random_source st1 = random_source st"
proof -
  define ps where "ps = max 1 (real_of_int \<lfloor>bsize settings / 2\<rfloor>)"
  define x where "x = real_of_int \<lfloor>px pt / ps\<rfloor> * ps"
  define y where "y = real_of_int \<lfloor>py pt / ps\<rfloor> * ps"
  define c1 where "c1 = fillRect x y ps ps ((ctx cv)\<lparr>fillStyle := Solid (color settings), globalAlpha := 1\<rparr>)"
  define st1 where "st1 = set_ctx c1 (st\<lparr>stamps := stamps st @ [At pt]\<rparr>)"
  define cell where "cell = (\<lambda>q::real \<times> real. x \<le> fst q \<and> fst q < x + ps \<and> y \<le> snd q \<and> snd q < y + ps)"
  have ps: "0 \<le> ps" by (simp add: ps_def)
  have d1: "drawStamp settings pt st = Normal () st1"
    using drawStamp_pixel [OF assms, of pt] by (simp add: st1_def c1_def x_def y_def ps_def)
  have b1: "bitmap c1 = (\<lambda>q. if cell q then color settings else bitmap (ctx cv) q)"
    unfolding c1_def cell_def by (subst bitmap_fillRect_solid [OF ps ps]) (simp_all cong: if_cong)
  have s1: "surface st1 = Some (\<lambda>q. if cell q then color settings else bitmap (ctx cv) q)"
    using assms(2) by (simp add: st1_def surface_set_ctx b1)
  have cr1: "canvasRef st1 = Some (cv\<lparr>ctx := c1\<rparr>)"
    using assms(2) by (simp add: st1_def set_ctx_def)
  have d2: "drawStamp settings pt st1 =
      Normal () (set_ctx (fillRect x y ps ps (c1\<lparr>fillStyle := Solid (color settings), globalAlpha := 1\<rparr>))
         (st1\<lparr>stamps := stamps st1 @ [At pt]\<rparr>))"
    using drawStamp_pixel [OF assms(1) cr1, of pt] by (simp add: x_def y_def ps_def)
  have b2: "bitmap (fillRect x y ps ps (c1\<lparr>fillStyle := Solid (color settings), globalAlpha := 1\<rparr>))
      = (\<lambda>q. if cell q then color settings else bitmap c1 q)"
    unfolding cell_def by (subst bitmap_fillRect_solid [OF ps ps]) (simp_all cong: if_cong)
  have s2: "surface (state_of (drawStamp settings pt st1)) = surface st1"
    using cr1 by (simp add: d2 surface_set_ctx s1 b2 b1 fun_eq_iff)
  have r: "random_source st1 = random_source st" by (simp add: st1_def set_ctx_def)
  show ?thesis
    unfolding Let_def using d1 s1 s2 r
    by (auto simp: cell_def x_def y_def ps_def)
qed

theorem pixel_stamp_cell_witness:
  "tool pixel_settings = PIXEL
   \<and> (\<exists>st1. drawStamp pixel_settings \<lparr>px = 12, py = 7, pressure = Some (1 / 2), tilt = None\<rparr> blank
               = Normal () st1
         \<and> surface st1 = Some (\<lambda>q. if 10 \<le> fst q \<and> fst q < 15 \<and> 5 \<le> snd q \<and> snd q < 10
                                    then (28, 25, 23) else beige)
         \<and> surface (state_of (drawStamp pixel_settings
                \<lparr>px = 12, py = 7, pressure = Some (1 / 2), tilt = None\<rparr> st1)) = surface st1)"
proof -
  have t: "tool pixel_settings = PIXEL"
    by (simp add: pixel_settings_def initial_settings_def)
  have c: "canvasRef blank = Some \<lparr>rect_left = 0, rect_top = 0, width = 200, height = 50,
        ctx = \<lparr>fillStyle = Solid beige, globalAlpha = 1, path = [], bitmap = (\<lambda>q. beige)\<rparr>\<rparr>"
    by (simp add: blank_def mounted_def)
  show ?thesis
    using t pixel_stamp_cell [OF t c, of "\<lparr>px = 12, py = 7, pressure = Some (1 / 2), tilt = None\<rparr>"]
    by (auto simp: pixel_settings_def initial_settings_def Let_def cong: if_cong)
qed



text \<open>
  Claim C6. For every stamp in a standard mode with effective radius \<open>r > 0\<close>, hardness
  not negative and opacity in \<open>[0, 1]\<close>, the stamp returns normally and the bitmap
  changes as follows, \<open>d\<close> being the distance of a position from the jittered centre.
  With hardness below 1 the colour is composited at the full opacity of the settings for
  \<open>d \<le> hardness * r\<close>, at that opacity times \<open>(r - d) / (r - hardness * r)\<close>, which
  falls linearly from 1 to 0, for \<open>hardness * r < d \<le> r\<close>, and not at all outside
  \<open>r\<close>. With hardness 1 (or more) it is composited at the full opacity everywhere in
  the disc \<open>d \<le> r\<close> and not at all outside it.
\<close>

theorem brush_mark_coverage:
  assumes "tool s \<noteq> PIXEL" and "canvasRef st = Some cv"
    and "0 \<le> hardness s" and "0 \<le> opacity s" and "opacity s \<le> 1"
    and "0 < bsize s * (if isStylus s then pressure_or_default (pressure pt) else 1)"
  shows "let size' = bsize s * (if isStylus s then pressure_or_default (pressure pt) else 1);
             r = size' / 2;
             cx = px pt + (if 0 < jitter s
                           then (random_source st 0 - 1 / 2) * jitter s * size' * 2 else 0);
             cy = py pt + (if 0 < jitter s
                           then (random_source st 1 - 1 / 2) * jitter s * size' * 2 else 0);
             col = (if tool s = ERASER then beige else color s)
         in \<exists>st1. drawStamp s pt st = Normal () st1
              \<and> surface st1 = Some (\<lambda>q.
                    let d = euclid cx cy (fst q) (snd q); old = bitmap (ctx cv) q
                    in if hardness s < 1 then
                         (if d \<le> hardness s * r then blend (opacity s) col old
                          else if d \<le> r
                            then blend (opacity s * ((r - d) / (r - hardness s * r))) col old
                          else old)
                       else (if d \<le> r then blend (opacity s) col old else old))"
proof -
  define sz where "sz = bsize s * (if isStylus s then pressure_or_default (pressure pt) else 1)"
  define cx where
    "cx = px pt + (if 0 < jitter s then (random_source st 0 - 1 / 2) * jitter s * sz * 2 else 0)"
  define cy where
    "cy = py pt + (if 0 < jitter s then (random_source st 1 - 1 / 2) * jitter s * sz * 2 else 0)"
  have sz: "0 < sz" "0 \<le> sz" using assms(6) by (simp_all add: sz_def)
  have cr: "canvasRef (after_jitter s (st\<lparr>stamps := stamps st @ [At pt]\<rparr>)) = Some cv"
    using assms(2) by (simp add: after_jitter_def)
  have d: "drawStamp s pt st = Normal () (set_ctx (brush_paint s cx cy sz (ctx cv))
        (after_jitter s (st\<lparr>stamps := stamps st @ [At pt]\<rparr>)))"
    using drawStamp_brush [OF assms(1,2,3), of pt] sz(2)
    by (simp add: sz_def cx_def cy_def jitter_x_def jitter_y_def)
  have s: "surface (set_ctx (brush_paint s cx cy sz (ctx cv))
        (after_jitter s (st\<lparr>stamps := stamps st @ [At pt]\<rparr>))) =
     Some (bitmap (brush_paint s cx cy sz (ctx cv)))"
    by (rule surface_set_ctx [OF cr])
  have b: "bitmap (brush_paint s cx cy sz (ctx cv)) =
     (\<lambda>q. let r = sz / 2; d = euclid cx cy (fst q) (snd q);
               col = (if tool s = ERASER then beige else color s)
           in if hardness s < 1 then
                (if d \<le> hardness s * r then blend (opacity s) col (bitmap (ctx cv) q)
                 else if d \<le> r
                   then blend (opacity s * ((r - d) / (r - hardness s * r))) col (bitmap (ctx cv) q)
                 else bitmap (ctx cv) q)
              else (if d \<le> r then blend (opacity s) col (bitmap (ctx cv) q)
                    else bitmap (ctx cv) q))"
    by (rule ext) (rule bitmap_brush_paint [OF assms(4,5) sz(1) assms(3)])
  show ?thesis
    unfolding Let_def sz_def [symmetric] cx_def [symmetric] cy_def [symmetric]
    by (rule exI, rule conjI, rule d, simp only: s b Let_def)
qed

theorem brush_mark_coverage_witness:
  "tool soft_settings \<noteq> PIXEL \<and> 0 \<le> hardness soft_settings \<and> hardness soft_settings < 1
   \<and> 0 \<le> opacity soft_settings \<and> opacity soft_settings \<le> 1
   \<and> (\<exists>st1 f. drawStamp soft_settings \<lparr>px = 10, py = 10, pressure = Some (1 / 2), tilt = None\<rparr>
                  blank = Normal () st1
         \<and> surface st1 = Some f
         \<and> f (13, 10) = (28, 25, 23)
         \<and> f (35 / 2, 10) = blend (1 / 2) (28, 25, 23) beige
         \<and> f (20, 10) = beige
         \<and> f (22, 10) = beige)"
proof -
  have t: "tool soft_settings \<noteq> PIXEL" and h: "0 \<le> hardness soft_settings"
    and h1: "hardness soft_settings < 1"
    and o: "0 \<le> opacity soft_settings" "opacity soft_settings \<le> 1"
    by (simp_all add: soft_settings_def initial_settings_def)
  have c: "canvasRef blank = Some \<lparr>rect_left = 0, rect_top = 0, width = 200, height = 50,
        ctx = \<lparr>fillStyle = Solid beige, globalAlpha = 1, path = [], bitmap = (\<lambda>q. beige)\<rparr>\<rparr>"
    by (simp add: blank_def mounted_def)
  have p: "0 < bsize soft_settings * (if isStylus soft_settings
      then pressure_or_default (pressure \<lparr>px = 10, py = 10, pressure = Some (1 / 2), tilt = None\<rparr>) else 1)"
    by (simp add: soft_settings_def initial_settings_def)
  have one: "blend 1 (28, 25, 23) beige = (28, 25, 23)" by (simp add: blend_def beige_def)
  show ?thesis
    using t h h1 o brush_mark_coverage [OF t c h o p]
    by (auto simp: soft_settings_def initial_settings_def Let_def euclid_same_y one)
qed

section \<open>Importing an image\<close>

text \<open>
  Claim C9, as the specification states it, fails: no code path sends an
  \<open>ImageDecodeError\<close>. With a decoder that rejects every payload, an import into the
  freshly mounted component leaves the list of signals without one.
\<close>

theorem loadImage_no_error_signal_counterexample:
  "ImageDecodeError \<notin> set (signals (loadImage (\<lambda>url. None) ''AAAA'' blank))"
  by (simp add: loadImage_def blank_def mounted_def)

text \<open>
  Claim C9, amended. When the payload fails to decode, \<open>loadImage\<close> leaves the whole
  state as it was: the bitmap is not modified and nothing is signalled to the host.
\<close>

theorem loadImage_decode_failure:
  assumes "decode (''data:image/png;base64,'' @ base64) = None"
  shows "loadImage decode base64 st = st"
  using assms by (simp add: loadImage_def split: option.splits)

theorem loadImage_decode_failure_witness:
  "(\<lambda>url. None :: image option) (''data:image/png;base64,'' @ ''AAAA'') = None
   \<and> loadImage (\<lambda>url. None) ''AAAA'' blank = blank"
proof -
  have f: "(\<lambda>url. None :: image option) (''data:image/png;base64,'' @ ''AAAA'') = None"
    by simp
  show ?thesis using loadImage_decode_failure [of "\<lambda>url. None" "''AAAA''" blank] by simp
qed

end
